theory Spec2Isabelle
  imports Complex_Main "HOL-Library.Multiset" "HOL-Library.Char_ord" "HOL-Library.List_Lexorder"
    "HOL-Library.Log_Nat"
begin

section \<open>JavaScript numbers\<close>

text \<open>
  App.tsx computes with the \<open>number\<close> type of JavaScript: IEEE 754 binary64. A finite
  double is a rational number, so a value is \<open>Num q\<close> for a rational \<open>q\<close>, or one of the
  two infinities, or \<open>NaN\<close>. The two zeros are one value here: no formula of the program
  divides by a value it computed, and \<open>===\<close>, \<open><\<close> and the result of \<open>Math.max(0, x)\<close>
  do not tell them apart.
\<close>

datatype number = Num rat | PosInfinity | NegInfinity | NaN

text \<open>
  The integer \<open>e\<close> with \<open>2 ^ e \<le> x < 2 ^ (e + 1)\<close>, for positive \<open>x\<close>; \<open>bitlen n\<close> is the
  number of binary digits of \<open>n\<close>.
\<close>

definition floor_log2 :: "rat \<Rightarrow> int" where
  "floor_log2 x = (if 1 \<le> x then bitlen \<lfloor>x\<rfloor> - 1 else - bitlen (\<lceil>1 / x\<rceil> - 1))"

text \<open>Rounding to the nearest integer, a tie going to the even one.\<close>

definition round_half_even :: "rat \<Rightarrow> int" where
  "round_half_even q =
     (let f = \<lfloor>q\<rfloor>; d = q - of_int f
      in if d < 1 / 2 then f else if 1 / 2 < d then f + 1 else if even f then f else f + 1)"

text \<open>
  A double has 53 significant binary digits: between \<open>2 ^ e\<close> and \<open>2 ^ (e + 1)\<close> the
  doubles are \<open>2 ^ (e - 52)\<close> apart, and never less than \<open>2 ^ - 1074\<close> apart (the
  subnormal numbers). A result that rounds to \<open>2 ^ 1024\<close> or more is an infinity.
\<close>

definition overflow_bound :: rat where
  "overflow_bound = 2 ^ 1024"

definition least_ulp :: rat where
  "least_ulp = 2 powi (- 1074)"

definition ulp :: "rat \<Rightarrow> rat" where
  "ulp x = max (2 powi (floor_log2 \<bar>x\<bar> - 52)) least_ulp"

definition rounded :: "rat \<Rightarrow> rat" where
  "rounded x = of_int (round_half_even (\<bar>x\<bar> / ulp x)) * ulp x"

text \<open>The double nearest to a rational: what every arithmetic operation returns.\<close>

definition fl :: "rat \<Rightarrow> number" where
  "fl x =
     (if x = 0 then Num 0
      else if overflow_bound \<le> rounded x then (if 0 < x then PosInfinity else NegInfinity)
      else Num (sgn x * rounded x))"

fun js_neg :: "number \<Rightarrow> number" where
  "js_neg (Num a) = Num (- a)"
| "js_neg PosInfinity = NegInfinity"
| "js_neg NegInfinity = PosInfinity"
| "js_neg NaN = NaN"

text \<open>\<open>a + b\<close>.\<close>

fun js_add :: "number \<Rightarrow> number \<Rightarrow> number" where
  "js_add (Num a) (Num b) = fl (a + b)"
| "js_add NaN b = NaN"
| "js_add a NaN = NaN"
| "js_add PosInfinity NegInfinity = NaN"
| "js_add NegInfinity PosInfinity = NaN"
| "js_add PosInfinity b = PosInfinity"
| "js_add a PosInfinity = PosInfinity"
| "js_add NegInfinity b = NegInfinity"
| "js_add a NegInfinity = NegInfinity"

text \<open>\<open>a - b\<close>.\<close>

definition js_sub :: "number \<Rightarrow> number \<Rightarrow> number" where
  "js_sub a b = js_add a (js_neg b)"

text \<open>\<open>a / b\<close>; a zero divisor counts as \<open>+0\<close>. The only divisor of the program is 3.\<close>

fun js_div :: "number \<Rightarrow> number \<Rightarrow> number" where
  "js_div (Num a) (Num b) =
     (if b = 0 then (if a = 0 then NaN else if 0 < a then PosInfinity else NegInfinity)
      else fl (a / b))"
| "js_div NaN b = NaN"
| "js_div a NaN = NaN"
| "js_div (Num a) b = Num 0"
| "js_div PosInfinity (Num b) = (if 0 \<le> b then PosInfinity else NegInfinity)"
| "js_div NegInfinity (Num b) = (if 0 \<le> b then NegInfinity else PosInfinity)"
| "js_div a b = NaN"

text \<open>\<open>Math.max(a, b)\<close>.\<close>

fun js_max :: "number \<Rightarrow> number \<Rightarrow> number" where
  "js_max (Num a) (Num b) = Num (max a b)"
| "js_max NaN b = NaN"
| "js_max a NaN = NaN"
| "js_max PosInfinity b = PosInfinity"
| "js_max a PosInfinity = PosInfinity"
| "js_max NegInfinity b = b"
| "js_max a NegInfinity = a"

text \<open>\<open>a < b\<close>.\<close>

fun js_lt :: "number \<Rightarrow> number \<Rightarrow> bool" where
  "js_lt (Num a) (Num b) = (a < b)"
| "js_lt NaN b = False"
| "js_lt a NaN = False"
| "js_lt a NegInfinity = False"
| "js_lt NegInfinity b = True"
| "js_lt PosInfinity b = False"
| "js_lt a PosInfinity = True"

text \<open>The rational that a finite number is.\<close>

fun val :: "number \<Rightarrow> rat" where
  "val (Num a) = a"
| "val a = 0"


section \<open>Data model (src/src/App.tsx, the types section)\<close>

text \<open>
  The string-literal unions of App.tsx become datatypes:
  \<^verbatim>\<open>type AccountType = "trip" | "savings";\<close> and the three category unions.
\<close>

datatype AccountType = trip | savings

datatype ExpenseCategory = Food | Alcohol | Metro | Auto | Cab | Attractions | Shopping | Misc

datatype IncomeCategory = Freelance_project | Internship_stipend | Friend_reimbursement | Custom_source

datatype PlaceCategory = Street_Food | Casual_Dining | Premium | Hotspot

text \<open>
  The three entry interfaces share field names (\<open>id\<close>, \<open>title\<close>, \<open>category\<close>; \<open>amount\<close>,
  \<open>date\<close>, \<open>accountId\<close>), so they are one chain of record extensions, the category type
  being a parameter: \<open>Place\<close> has the three common fields, \<open>Income\<close> adds \<open>amount\<close>,
  \<open>date\<close> and \<open>accountId\<close>, \<open>Expense\<close> adds \<open>time\<close>. The field \<open>id\<close> is written \<open>id'\<close>
  (\<open>id\<close> is the identity function of HOL).

  An amount or a parameter that is entered, stored and sent as JSON is a finite number,
  whole or not: a rational. Every double is one; the theorems below hold for every
  rational, so for every double.
\<close>

record 'c entry =
  id' :: string
  title :: string
  category :: 'c

record 'c money_entry = "'c entry" +
  amount :: rat
  date :: string
  accountId :: AccountType

record Expense = "ExpenseCategory money_entry" +
  time :: string

type_synonym Income = "IncomeCategory money_entry"

type_synonym Place = "PlaceCategory entry"

text \<open>
  The eight fixed parameters: the columns of the \<open>finances\<close> table, the body of
  \<open>POST /api/finances\<close> and eight \<open>useState\<close> cells of the \<open>App\<close> component.
\<close>

record FixedParameters =
  totalBudget :: rat
  platinumTicket :: rat
  pendingPlatinum :: rat
  flightTotal :: rat
  myFlightShare :: rat
  stay :: rat
  expectedIncoming :: rat
  baseSavings :: rat

text \<open>
  The state of the \<open>App\<close> component that the calculations read: the fixed parameters and
  the three lists of dynamic entries.
\<close>

record AppState = FixedParameters +
  expenses :: "Expense list"
  incomes :: "Income list"
  places :: "Place list"


section \<open>The calculations (src/src/App.tsx, "Calculations")\<close>

definition tripExpenses :: "'a AppState_scheme \<Rightarrow> Expense list" where
  "tripExpenses s = filter (\<lambda>e. accountId e = trip) (expenses s)"

definition savingsExpenses :: "'a AppState_scheme \<Rightarrow> Expense list" where
  "savingsExpenses s = filter (\<lambda>e. accountId e = savings) (expenses s)"

definition tripIncomes :: "'a AppState_scheme \<Rightarrow> Income list" where
  "tripIncomes s = filter (\<lambda>i. accountId i = trip) (incomes s)"

definition savingsIncomes :: "'a AppState_scheme \<Rightarrow> Income list" where
  "savingsIncomes s = filter (\<lambda>i. accountId i = savings) (incomes s)"

text \<open>\<^verbatim>\<open>xs.reduce((sum, e) => sum + e.amount, 0)\<close> is a left fold from 0.\<close>

definition tripDynamicSpent :: "'a AppState_scheme \<Rightarrow> number" where
  "tripDynamicSpent s = foldl (\<lambda>sum e. js_add sum (Num (amount e))) (Num 0) (tripExpenses s)"

definition savingsDynamicSpent :: "'a AppState_scheme \<Rightarrow> number" where
  "savingsDynamicSpent s =
     foldl (\<lambda>sum e. js_add sum (Num (amount e))) (Num 0) (savingsExpenses s)"

definition tripDynamicIncome :: "'a AppState_scheme \<Rightarrow> number" where
  "tripDynamicIncome s = foldl (\<lambda>sum i. js_add sum (Num (amount i))) (Num 0) (tripIncomes s)"

definition savingsDynamicIncome :: "'a AppState_scheme \<Rightarrow> number" where
  "savingsDynamicIncome s =
     foldl (\<lambda>sum i. js_add sum (Num (amount i))) (Num 0) (savingsIncomes s)"

text \<open>
  \<^verbatim>\<open>platinumTicket - pendingPlatinum + myFlightShare + stay + tripDynamicSpent\<close>, from
  left to right, as JavaScript evaluates it.
\<close>

definition tripEffectiveSpent :: "'a AppState_scheme \<Rightarrow> number" where
  "tripEffectiveSpent s =
     js_add (js_add (js_add (js_sub (Num (platinumTicket s)) (Num (pendingPlatinum s)))
       (Num (myFlightShare s))) (Num (stay s))) (tripDynamicSpent s)"

definition tripTotalIncoming :: "'a AppState_scheme \<Rightarrow> number" where
  "tripTotalIncoming s = js_add (Num (expectedIncoming s)) (tripDynamicIncome s)"

text \<open>\<^verbatim>\<open>totalBudget - tripEffectiveSpent - pendingPlatinum + tripTotalIncoming\<close>.\<close>

definition tripRemainingBalance :: "'a AppState_scheme \<Rightarrow> number" where
  "tripRemainingBalance s =
     js_add (js_sub (js_sub (Num (totalBudget s)) (tripEffectiveSpent s))
       (Num (pendingPlatinum s))) (tripTotalIncoming s)"

text \<open>\<^verbatim>\<open>Math.max(0, tripRemainingBalance / 3)\<close>.\<close>

definition safeDailySpend :: "'a AppState_scheme \<Rightarrow> number" where
  "safeDailySpend s = js_max (Num 0) (js_div (tripRemainingBalance s) (Num 3))"

text \<open>\<^verbatim>\<open>baseSavings + savingsDynamicIncome - savingsDynamicSpent\<close>.\<close>

definition totalSavingsBalance :: "'a AppState_scheme \<Rightarrow> number" where
  "totalSavingsBalance s =
     js_sub (js_add (Num (baseSavings s)) (savingsDynamicIncome s)) (savingsDynamicSpent s)"


section \<open>Where the arithmetic is exact\<close>

text \<open>
  Doubles hold every whole number up to \<open>2 ^ 53\<close> in magnitude. When the parameters and
  the amounts that a figure reads are whole numbers, and their magnitudes add up to at
  most \<open>2 ^ 53\<close>, no step of its computation rounds.
\<close>

definition whole :: "rat \<Rightarrow> bool" where
  "whole q \<longleftrightarrow> q = of_int \<lfloor>q\<rfloor>"

definition amounts :: "('c, 'a) money_entry_scheme list \<Rightarrow> rat" where
  "amounts xs = sum_list (map amount xs)"

definition magnitudes :: "('c, 'a) money_entry_scheme list \<Rightarrow> rat" where
  "magnitudes xs = sum_list (map (\<lambda>e. \<bar>amount e\<bar>) xs)"

definition trip_exact :: "'a AppState_scheme \<Rightarrow> bool" where
  "trip_exact s \<longleftrightarrow>
     whole (totalBudget s) \<and> whole (platinumTicket s) \<and> whole (pendingPlatinum s) \<and>
     whole (myFlightShare s) \<and> whole (stay s) \<and> whole (expectedIncoming s) \<and>
     list_all (\<lambda>e. whole (amount e)) (tripExpenses s) \<and>
     list_all (\<lambda>i. whole (amount i)) (tripIncomes s) \<and>
     \<bar>totalBudget s\<bar> + \<bar>platinumTicket s\<bar> + \<bar>pendingPlatinum s\<bar> + \<bar>myFlightShare s\<bar> +
       \<bar>stay s\<bar> + \<bar>expectedIncoming s\<bar> + magnitudes (tripExpenses s) +
       magnitudes (tripIncomes s) \<le> 2 ^ 53"

definition savings_exact :: "'a AppState_scheme \<Rightarrow> bool" where
  "savings_exact s \<longleftrightarrow>
     whole (baseSavings s) \<and>
     list_all (\<lambda>e. whole (amount e)) (savingsExpenses s) \<and>
     list_all (\<lambda>i. whole (amount i)) (savingsIncomes s) \<and>
     \<bar>baseSavings s\<bar> + magnitudes (savingsExpenses s) + magnitudes (savingsIncomes s) \<le> 2 ^ 53"


section \<open>The server (src/server.ts)\<close>

text \<open>
  Of the two revisions of the server in src/server.ts, this is the one that has the
  routes for entries (\<open>startServer\<close>); the schema and the routes they share are the same.

  The tables \<open>expenses\<close>, \<open>incomes\<close> and \<open>places\<close> each declare \<open>id TEXT PRIMARY KEY\<close> and a
  column \<open>user_id\<close> with \<open>FOREIGN KEY(user_id) REFERENCES users(id)\<close>. A table is the list
  of its rows in insertion order; a row is the pair of its \<open>user_id\<close> and of the other
  columns, which are the fields of the request body. The table \<open>finances\<close> has \<open>user_id\<close>
  as its primary key, so it is a map from the user to the eight columns. Of \<open>users\<close> the
  columns \<open>id\<close> and \<open>username\<close> are kept; password hashes and tokens are not modelled: the
  data routes run behind \<open>authenticate\<close>, which supplies \<open>req.userId\<close>.
\<close>

type_synonym 'e table = "(nat \<times> 'e) list"

record Database =
  users_tbl :: "(nat \<times> string) list"
  finances_tbl :: "nat \<rightharpoonup> FixedParameters"
  expenses_tbl :: "Expense table"
  incomes_tbl :: "Income table"
  places_tbl :: "Place table"

text \<open>The database file as the \<open>CREATE TABLE IF NOT EXISTS\<close> statements leave a new one.\<close>

definition initial_db :: Database where
  "initial_db = \<lparr>users_tbl = [], finances_tbl = Map.empty, expenses_tbl = [],
     incomes_tbl = [], places_tbl = []\<rparr>"

datatype SqliteError =
  SQLITE_CONSTRAINT_UNIQUE | SQLITE_CONSTRAINT_PRIMARYKEY | SQLITE_CONSTRAINT_FOREIGNKEY

definition registered :: "Database \<Rightarrow> nat \<Rightarrow> bool" where
  "registered db uid \<longleftrightarrow> uid \<in> set (map fst (users_tbl db))"

definition ids :: "('c, 'a) entry_scheme table \<Rightarrow> string list" where
  "ids t = map (\<lambda>r. id' (snd r)) t"

text \<open>
  \<^verbatim>\<open>INSERT INTO t (id, user_id, ...) VALUES (?, ?, ...)\<close> on a table whose key is \<open>id\<close>
  and whose \<open>user_id\<close> refers to \<open>users\<close>. The key is checked when the row is written, the
  reference when the statement ends; better-sqlite3 enforces foreign keys. The entry
  routes catch nothing: a statement that throws fails the request and changes no table.
\<close>

definition insert_row ::
  "Database \<Rightarrow> nat \<Rightarrow> ('c, 'a) entry_scheme \<Rightarrow> ('c, 'a) entry_scheme table
     \<Rightarrow> SqliteError + ('c, 'a) entry_scheme table" where
  "insert_row db uid e t =
     (if id' e \<in> set (ids t) then Inl SQLITE_CONSTRAINT_PRIMARYKEY
      else if \<not> registered db uid then Inl SQLITE_CONSTRAINT_FOREIGNKEY
      else Inr (t @ [(uid, e)]))"

text \<open>
  \<^verbatim>\<open>SELECT * FROM t WHERE user_id = ? ORDER BY id DESC\<close>: the rows of the user, by
  descending \<open>id\<close>. The column is \<open>TEXT\<close>, compared byte by byte, a proper prefix first:
  the lexicographic order of \<open>string\<close>.
\<close>

definition select_desc :: "nat \<Rightarrow> ('c, 'a) entry_scheme table \<Rightarrow> ('c, 'a) entry_scheme list" where
  "select_desc uid t =
     map snd (rev (sort_key (\<lambda>r. id' (snd r)) (filter (\<lambda>r. fst r = uid) t)))"

text \<open>\<open>POST /api/expenses\<close>, \<open>POST /api/incomes\<close>, \<open>POST /api/places\<close>.\<close>

definition post_api_expenses :: "Database \<Rightarrow> nat \<Rightarrow> Expense \<Rightarrow> SqliteError + Database" where
  "post_api_expenses db uid e =
     (case insert_row db uid e (expenses_tbl db) of
        Inl err \<Rightarrow> Inl err
      | Inr t \<Rightarrow> Inr (db\<lparr>expenses_tbl := t\<rparr>))"

definition post_api_incomes :: "Database \<Rightarrow> nat \<Rightarrow> Income \<Rightarrow> SqliteError + Database" where
  "post_api_incomes db uid i =
     (case insert_row db uid i (incomes_tbl db) of
        Inl err \<Rightarrow> Inl err
      | Inr t \<Rightarrow> Inr (db\<lparr>incomes_tbl := t\<rparr>))"

definition post_api_places :: "Database \<Rightarrow> nat \<Rightarrow> Place \<Rightarrow> SqliteError + Database" where
  "post_api_places db uid p =
     (case insert_row db uid p (places_tbl db) of
        Inl err \<Rightarrow> Inl err
      | Inr t \<Rightarrow> Inr (db\<lparr>places_tbl := t\<rparr>))"

text \<open>
  \<open>POST /api/auth/register\<close>. \<^verbatim>\<open>INSERT INTO users (username, password)\<close> fails when the
  name is taken (\<open>username TEXT UNIQUE\<close>); otherwise the row takes the next \<open>id\<close>
  (\<open>AUTOINCREMENT\<close>, and no row is ever deleted). Then
  \<^verbatim>\<open>INSERT INTO finances (user_id) VALUES (?)\<close> with that id: every other column takes
  its \<open>DEFAULT 0\<close>. The two statements are not one transaction: were the second to fail,
  the user would stay.
\<close>

definition default_finances :: FixedParameters where
  "default_finances = \<lparr>totalBudget = 0, platinumTicket = 0, pendingPlatinum = 0,
     flightTotal = 0, myFlightShare = 0, stay = 0, expectedIncoming = 0, baseSavings = 0\<rparr>"

definition lastInsertRowid :: "Database \<Rightarrow> nat" where
  "lastInsertRowid db = Suc (fold max (map fst (users_tbl db)) 0)"

definition post_api_auth_register :: "Database \<Rightarrow> string \<Rightarrow> SqliteError option \<times> Database" where
  "post_api_auth_register db username =
     (if username \<in> set (map snd (users_tbl db)) then (Some SQLITE_CONSTRAINT_UNIQUE, db)
      else
        let userId = lastInsertRowid db;
            db' = db\<lparr>users_tbl := users_tbl db @ [(userId, username)]\<rparr>
        in case finances_tbl db' userId of
             Some row \<Rightarrow> (Some SQLITE_CONSTRAINT_PRIMARYKEY, db')
           | None \<Rightarrow> (None, db'\<lparr>finances_tbl := (finances_tbl db')(userId \<mapsto> default_finances)\<rparr>))"

text \<open>
  \<open>POST /api/finances\<close>: \<^verbatim>\<open>UPDATE finances SET ... WHERE user_id = ?\<close> replaces the eight
  columns of the user's row, and changes nothing when the user has no row.
\<close>

definition post_api_finances :: "Database \<Rightarrow> nat \<Rightarrow> FixedParameters \<Rightarrow> Database" where
  "post_api_finances db uid p =
     (case finances_tbl db uid of
        Some row \<Rightarrow> db\<lparr>finances_tbl := (finances_tbl db)(uid \<mapsto> p)\<rparr>
      | None \<Rightarrow> db)"

text \<open>
  \<open>GET /api/data\<close>: the user's \<open>finances\<close> row, or \<open>{}\<close> when there is none (here \<open>None\<close>),
  and the user's rows of the three tables.
\<close>

definition get_api_data ::
  "Database \<Rightarrow> nat \<Rightarrow> FixedParameters option \<times> Expense list \<times> Income list \<times> Place list" where
  "get_api_data db uid =
     (finances_tbl db uid, select_desc uid (expenses_tbl db), select_desc uid (incomes_tbl db),
      select_desc uid (places_tbl db))"

text \<open>
  \<open>fetchData\<close> of App.tsx stores the response in the state. \<^verbatim>\<open>data.finances.f || 0\<close> is 0
  when the field is missing (the object is \<open>{}\<close>) or is 0, and the field otherwise.
\<close>

definition or0 :: "rat option \<Rightarrow> rat" where
  "or0 v = (case v of None \<Rightarrow> 0 | Some n \<Rightarrow> if n = 0 then 0 else n)"

definition fetchData ::
  "FixedParameters option \<times> Expense list \<times> Income list \<times> Place list \<Rightarrow> AppState" where
  "fetchData data =
     (case data of (fin, es, is, ps) \<Rightarrow>
        \<lparr>totalBudget = or0 (map_option totalBudget fin),
         platinumTicket = or0 (map_option platinumTicket fin),
         pendingPlatinum = or0 (map_option pendingPlatinum fin),
         flightTotal = or0 (map_option flightTotal fin),
         myFlightShare = or0 (map_option myFlightShare fin),
         stay = or0 (map_option stay fin),
         expectedIncoming = or0 (map_option expectedIncoming fin),
         baseSavings = or0 (map_option baseSavings fin),
         expenses = es, incomes = is, places = ps\<rparr>)"

text \<open>
  The operations of the specification, as a client sees them: the append operations are
  the three \<open>POST\<close> handlers, \<open>get\<close> and the three list operations are the parts of the
  state that \<open>fetchData\<close> builds from \<open>GET /api/data\<close>.
\<close>

definition load :: "Database \<Rightarrow> nat \<Rightarrow> AppState" where
  "load db uid = fetchData (get_api_data db uid)"

definition listExpenses :: "Database \<Rightarrow> nat \<Rightarrow> Expense list" where
  "listExpenses db uid = expenses (load db uid)"

definition listIncomes :: "Database \<Rightarrow> nat \<Rightarrow> Income list" where
  "listIncomes db uid = incomes (load db uid)"

definition listPlaces :: "Database \<Rightarrow> nat \<Rightarrow> Place list" where
  "listPlaces db uid = places (load db uid)"

text \<open>Requests that write, and a server that handles them one after the other.\<close>

datatype request =
  Register string
| PostFinances nat FixedParameters
| PostExpense nat Expense
| PostIncome nat Income
| PostPlace nat Place

definition unchanged_on_error ::
  "Database \<Rightarrow> SqliteError + Database \<Rightarrow> SqliteError option \<times> Database" where
  "unchanged_on_error db r = (case r of Inl err \<Rightarrow> (Some err, db) | Inr db' \<Rightarrow> (None, db'))"

fun handle :: "Database \<Rightarrow> request \<Rightarrow> SqliteError option \<times> Database" where
  "handle db (Register username) = post_api_auth_register db username"
| "handle db (PostFinances uid p) = (None, post_api_finances db uid p)"
| "handle db (PostExpense uid e) = unchanged_on_error db (post_api_expenses db uid e)"
| "handle db (PostIncome uid i) = unchanged_on_error db (post_api_incomes db uid i)"
| "handle db (PostPlace uid p) = unchanged_on_error db (post_api_places db uid p)"

definition serve :: "Database \<Rightarrow> request \<Rightarrow> Database" where
  "serve db r = snd (handle db r)"

definition run :: "Database \<Rightarrow> request list \<Rightarrow> Database" where
  "run db rs = foldl serve db rs"

fun sets_finances :: "nat \<Rightarrow> request \<Rightarrow> bool" where
  "sets_finances uid (PostFinances uid' p) = (uid' = uid)"
| "sets_finances uid r = False"


section \<open>The reading of the specification, for comparison\<close>

text \<open>
  The rows of an owner in the order in which they were appended, and the order the
  specification gives to the list operations: the most recently appended first.
\<close>

definition owned :: "nat \<Rightarrow> 'e table \<Rightarrow> 'e list" where
  "owned uid t = map snd (filter (\<lambda>r. fst r = uid) t)"

definition most_recent_first :: "nat \<Rightarrow> 'e table \<Rightarrow> 'e list" where
  "most_recent_first uid t = rev (owned uid t)"

text \<open>
  The specification's test for a duplicate: the identifier is that of an entry of the
  owner, of any of the three kinds.
\<close>

definition id_used_by_owner :: "Database \<Rightarrow> nat \<Rightarrow> string \<Rightarrow> bool" where
  "id_used_by_owner db uid i \<longleftrightarrow>
     i \<in> set (map id' (owned uid (expenses_tbl db))) \<or>
     i \<in> set (map id' (owned uid (incomes_tbl db))) \<or>
     i \<in> set (map id' (owned uid (places_tbl db)))"


section \<open>Example data\<close>

text \<open>The scenario of the specification: the eight parameters and no entries.\<close>

definition scenario :: AppState where
  "scenario = \<lparr>totalBudget = 30000, platinumTicket = 22500, pendingPlatinum = 11500,
     flightTotal = 22500, myFlightShare = 11250, stay = 2000, expectedIncoming = 11250,
     baseSavings = 50000, expenses = [], incomes = [], places = []\<rparr>"

text \<open>The state of a new user, and one with three parameters near \<open>2 ^ 53\<close>.\<close>

definition blank :: AppState where
  "blank = \<lparr>totalBudget = 0, platinumTicket = 0, pendingPlatinum = 0,
     flightTotal = 0, myFlightShare = 0, stay = 0, expectedIncoming = 0,
     baseSavings = 0, expenses = [], incomes = [], places = []\<rparr>"

definition stretched :: AppState where
  "stretched = \<lparr>totalBudget = 2 ^ 53, platinumTicket = 1, pendingPlatinum = 2 ^ 53,
     flightTotal = 0, myFlightShare = 0, stay = 0, expectedIncoming = 0,
     baseSavings = 0, expenses = [], incomes = [], places = []\<rparr>"

definition lunch :: Expense where
  "lunch = \<lparr>id' = ''1764316800000'', title = ''Lunch'', category = Food, amount = 500,
     date = ''28 Nov'', accountId = trip, time = ''01:30 PM''\<rparr>"

definition cab :: Expense where
  "cab = \<lparr>id' = ''1764320400000'', title = ''Cab'', category = Cab, amount = 320,
     date = ''28 Nov'', accountId = trip, time = ''02:30 PM''\<rparr>"

definition gift :: Expense where
  "gift = \<lparr>id' = ''1764324000000'', title = ''Gift'', category = Shopping, amount = 1200,
     date = ''28 Nov'', accountId = savings, time = ''03:30 PM''\<rparr>"

definition stipend :: Income where
  "stipend = \<lparr>id' = ''1764327600000'', title = ''Stipend'', category = Internship_stipend,
     amount = 2000, date = ''28 Nov'', accountId = savings\<rparr>"

definition refund :: Income where
  "refund = \<lparr>id' = ''1764331200000'', title = ''Refund'', category = Friend_reimbursement,
     amount = 700, date = ''28 Nov'', accountId = trip\<rparr>"

definition cafe :: Place where
  "cafe = \<lparr>id' = ''1764334800000'', title = ''Cafe'', category = Casual_Dining\<rparr>"

text \<open>Trip expenses of \<open>2 ^ 53\<close>, 1 and 1.\<close>

definition villa :: Expense where
  "villa = \<lparr>id' = ''1764338400000'', title = ''Villa'', category = Misc,
     amount = 2 ^ 53, date = ''28 Nov'', accountId = trip, time = ''07:30 PM''\<rparr>"

definition tea :: Expense where
  "tea = \<lparr>id' = ''1764342000000'', title = ''Tea'', category = Food,
     amount = 1, date = ''28 Nov'', accountId = trip, time = ''08:30 PM''\<rparr>"

definition toll :: Expense where
  "toll = \<lparr>id' = ''1764345600000'', title = ''Toll'', category = Cab,
     amount = 1, date = ''28 Nov'', accountId = trip, time = ''09:30 PM''\<rparr>"

text \<open>Two expenses whose identifiers are not in the order of text.\<close>

definition dinner :: Expense where
  "dinner = \<lparr>id' = ''9'', title = ''Dinner'', category = Food, amount = 400,
     date = ''28 Nov'', accountId = trip, time = ''08:30 PM''\<rparr>"

definition metro :: Expense where
  "metro = \<lparr>id' = ''10'', title = ''Metro'', category = Metro, amount = 60,
     date = ''28 Nov'', accountId = trip, time = ''10:30 PM''\<rparr>"

text \<open>An income whose identifier is that of the expense \<open>lunch\<close>.\<close>

definition payback :: Income where
  "payback = \<lparr>id' = ''1764316800000'', title = ''Payback'', category = Friend_reimbursement,
     amount = 250, date = ''28 Nov'', accountId = trip\<rparr>"

text \<open>
  Two users register and get the ids 1 and 2; user 1 appends entries of every kind and
  never saves parameters, user 2 saves the parameters of the scenario.
\<close>

definition busy_day :: "request list" where
  "busy_day = [Register ''asha'', Register ''ravi'', PostExpense 1 lunch, PostExpense 2 gift,
     PostExpense 1 cab, PostIncome 1 stipend, PostIncome 1 refund, PostPlace 1 cafe,
     PostFinances 2 (FixedParameters.truncate scenario)]"


section \<open>An invariant of the server\<close>

text \<open>The user has no \<open>finances\<close> row, or a row that still holds the defaults.\<close>

definition untouched :: "nat \<Rightarrow> Database \<Rightarrow> bool" where
  "untouched uid db \<longleftrightarrow>
     finances_tbl db uid = None \<or> finances_tbl db uid = Some default_finances"


section \<open>Rounding to a double\<close>

lemma powi_nat: "0 \<le> k \<Longrightarrow> (2::rat) powi k = 2 ^ nat k"
  by (simp add: power_int_def)

lemma powi_neg: "k \<le> 0 \<Longrightarrow> (2::rat) powi k = 1 / 2 ^ nat (- k)"
  by (cases "k = 0") (simp_all add: power_int_def field_simps)

lemma powi_pos: "(0::rat) < 2 powi k"
  by (simp add: power_int_def)

lemma powi_mono: "k \<le> l \<Longrightarrow> (2::rat) powi k \<le> 2 powi l"
  by (rule power_int_increasing) simp_all

lemma floor_log2_bounds:
  assumes "0 < x"
  shows "2 powi floor_log2 x \<le> x \<and> x < 2 powi (floor_log2 x + 1)"
proof (cases "1 \<le> x")
  case True
  let ?m = "\<lfloor>x\<rfloor>"
  from True have m: "0 < ?m" by simp
  from bitlen_bounds [OF m]
  have lo: "2 ^ nat (bitlen ?m - 1) \<le> ?m" and hi: "?m < 2 ^ nat (bitlen ?m)" by simp_all
  from m have b1: "1 \<le> bitlen ?m"
    using bitlen_eq_zero_iff [of ?m] bitlen_nonneg [of ?m] by linarith
  have "(2::rat) ^ nat (bitlen ?m - 1) = of_int (2 ^ nat (bitlen ?m - 1))" by simp
  also have "\<dots> \<le> of_int ?m" using lo by (simp only: of_int_le_iff)
  also have "\<dots> \<le> x" by simp
  finally have A: "(2::rat) ^ nat (bitlen ?m - 1) \<le> x" .
  from hi have "?m + 1 \<le> 2 ^ nat (bitlen ?m)" by simp
  then have "(of_int (?m + 1) :: rat) \<le> of_int (2 ^ nat (bitlen ?m))"
    by (simp only: of_int_le_iff)
  moreover have "x < of_int (?m + 1)" by linarith
  ultimately have B: "x < 2 ^ nat (bitlen ?m)" by simp
  from True b1 A B show ?thesis
    by (simp add: floor_log2_def powi_nat)
next
  case False
  let ?c = "\<lceil>1 / x\<rceil>"
  let ?j = "bitlen (?c - 1)"
  from False assms have x1: "1 < 1 / x" by (simp add: field_simps)
  then have c2: "2 \<le> ?c" by (simp add: le_ceiling_iff)
  then have m: "0 < ?c - 1" by simp
  from bitlen_bounds [OF m]
  have lo: "2 ^ nat (?j - 1) \<le> ?c - 1" and hi: "?c - 1 < 2 ^ nat ?j" by simp_all
  from m have j1: "1 \<le> ?j"
    using bitlen_eq_zero_iff [of "?c - 1"] bitlen_nonneg [of "?c - 1"] by linarith
  from hi have "?c \<le> 2 ^ nat ?j" by simp
  then have "(of_int ?c :: rat) \<le> 2 ^ nat ?j" by simp
  moreover have "1 / x \<le> of_int ?c" by (rule le_of_int_ceiling)
  ultimately have "1 / x \<le> 2 ^ nat ?j" by (rule order_trans [rotated])
  with assms have A: "1 / 2 ^ nat ?j \<le> x"
    by (simp add: field_simps)
  have "(2::rat) ^ nat (?j - 1) \<le> of_int (?c - 1)"
    using lo by (simp flip: of_int_diff)
  moreover have "of_int (?c - 1) < 1 / x"
    using ceiling_correct [of "1 / x"] by simp
  ultimately have "2 ^ nat (?j - 1) < 1 / x" by (rule le_less_trans)
  with assms have B: "x < 1 / 2 ^ nat (?j - 1)"
    by (simp add: field_simps)
  have e1: "(2::rat) powi (- ?j) = 1 / 2 ^ nat ?j"
    using j1 by (simp add: power_int_def power_one_over)
  have e2: "(2::rat) powi (- ?j + 1) = 1 / 2 ^ nat (?j - 1)"
    using j1 by (simp add: power_int_def nat_diff_distrib power_one_over)
  from False A B e1 e2 show ?thesis
    by (simp add: floor_log2_def)
qed

lemma floor_log2_eqI:
  assumes "0 < x" and "2 powi e \<le> x" and "x < 2 powi (e + 1)"
  shows "floor_log2 x = e"
proof -
  let ?f = "floor_log2 x"
  from floor_log2_bounds [OF assms(1)]
  have lo: "2 powi ?f \<le> x" and hi: "x < 2 powi (?f + 1)" by simp_all
  have "\<not> ?f < e"
  proof
    assume "?f < e"
    then have "(2::rat) powi (?f + 1) \<le> 2 powi e" by (intro powi_mono) simp
    with hi assms(2) show False by linarith
  qed
  moreover have "\<not> e < ?f"
  proof
    assume "e < ?f"
    then have "(2::rat) powi (e + 1) \<le> 2 powi ?f" by (intro powi_mono) simp
    with lo assms(3) show False by linarith
  qed
  ultimately show ?thesis by simp
qed

lemma round_half_even_of_int [simp]: "round_half_even (of_int n) = n"
  by (simp add: round_half_even_def)

lemma round_half_even_numeral [simp]: "round_half_even (numeral k) = numeral k"
  by (simp add: round_half_even_def)

lemma round_half_even_near:
  assumes "\<bar>q - of_int n\<bar> < 1 / 2"
  shows "round_half_even q = n"
proof -
  from assms have lo: "of_int n - 1 / 2 < q" and hi: "q < of_int n + 1 / 2"
    by linarith+
  have "\<lfloor>q\<rfloor> = n \<or> \<lfloor>q\<rfloor> = n - 1"
    using lo hi by (auto simp: floor_eq_iff)
  then show ?thesis
  proof
    assume f: "\<lfloor>q\<rfloor> = n"
    from hi have "q - of_int n < 1 / 2" by simp
    with f show ?thesis by (simp add: round_half_even_def)
  next
    assume f: "\<lfloor>q\<rfloor> = n - 1"
    from lo have "1 / 2 < q - of_int (n - 1)" by simp
    with f show ?thesis by (simp add: round_half_even_def)
  qed
qed

lemma round_half_even_tie_down:
  assumes "q = of_int n + 1 / 2" and "even n"
  shows "round_half_even q = n"
proof -
  from assms(1) have "\<lfloor>q\<rfloor> = n" by (simp add: floor_eq_iff)
  with assms show ?thesis by (simp add: round_half_even_def)
qed

lemma round_half_even_tie_up:
  assumes "q = of_int n - 1 / 2" and "even n"
  shows "round_half_even q = n"
proof -
  from assms(1) have f: "\<lfloor>q\<rfloor> = n - 1" by (simp add: floor_eq_iff)
  with assms show ?thesis by (simp add: round_half_even_def)
qed

lemma round_half_even_error: "\<bar>of_int (round_half_even q) - q\<bar> \<le> 1 / 2"
proof -
  have "of_int \<lfloor>q\<rfloor> \<le> q" "q < of_int \<lfloor>q\<rfloor> + 1" by linarith+
  then show ?thesis
    by (auto simp: round_half_even_def Let_def abs_le_iff)
qed

lemma round_half_even_nonneg: "0 \<le> q \<Longrightarrow> 0 \<le> round_half_even q"
  by (auto simp: round_half_even_def Let_def)

lemma least_ulp_pos: "0 < least_ulp"
  by (simp add: least_ulp_def powi_pos)

lemma ulp_pos: "0 < ulp x"
  by (simp add: ulp_def powi_pos less_max_iff_disj)

lemma ulp_normal:
  assumes "- 1022 \<le> e"
  shows "max (2 powi (e - 52)) least_ulp = 2 powi (e - 52)"
proof -
  from assms have "(2::rat) powi (- 1074) \<le> 2 powi (e - 52)" by (intro powi_mono) simp
  then show ?thesis by (simp add: least_ulp_def max_def)
qed

lemma below_overflow:
  assumes "y \<le> 2 ^ 64"
  shows "y < overflow_bound"
proof -
  have "(2::rat) ^ 64 < 2 ^ 1024" by (rule power_strict_increasing) simp_all
  with assms show ?thesis unfolding overflow_bound_def by (rule le_less_trans)
qed

lemma ulp_minus [simp]: "ulp (- x) = ulp x"
  by (simp add: ulp_def)

lemma ulp_abs [simp]: "ulp \<bar>x\<bar> = ulp x"
  by (simp add: ulp_def)

lemma fl_0 [simp]: "fl 0 = Num 0"
  by (simp add: fl_def)

lemma rounded_minus [simp]: "rounded (- x) = rounded x"
  by (simp add: rounded_def)

lemma fl_minus: "fl (- x) = js_neg (fl x)"
  by (simp add: fl_def sgn_if)

lemma fl_pos_eqI:
  assumes "0 < x" and "2 powi e \<le> x" and "x < 2 powi (e + 1)" and "- 1022 \<le> e"
    and "u = 2 powi (e - 52)"
    and "round_half_even (x / u) = n"
    and "of_int n * u \<le> 2 ^ 64"
  shows "fl x = Num (of_int n * u)"
proof -
  from assms(1-3) have "floor_log2 x = e" by (rule floor_log2_eqI)
  with assms(1,4,5) have "ulp x = u" by (simp add: ulp_def ulp_normal)
  moreover from assms(7) have "\<not> overflow_bound \<le> of_int n * u"
    using below_overflow [of "of_int n * u"] by simp
  ultimately show ?thesis using assms(1,6) by (simp add: fl_def rounded_def)
qed

lemma fl_nat_exact:
  assumes "0 < m" and "m \<le> 2 ^ 53"
  shows "fl (of_int m) = Num (of_int m)"
proof -
  let ?e = "bitlen m - 1"
  from bitlen_bounds [OF assms(1)]
  have lo: "2 ^ nat ?e \<le> m" and hi: "m < 2 ^ nat (bitlen m)" by simp_all
  from assms(1) have b1: "1 \<le> bitlen m"
    using bitlen_eq_zero_iff [of m] bitlen_nonneg [of m] by linarith
  have x: "(0::rat) < of_int m" using assms(1) by simp
  have A: "2 powi ?e \<le> (of_int m :: rat)"
    using lo b1 by (simp add: powi_nat)
  have B: "(of_int m :: rat) < 2 powi (?e + 1)"
    using hi b1 by (simp add: powi_nat)
  have e53: "?e \<le> 53"
  proof (rule ccontr)
    assume "\<not> ?e \<le> 53"
    then have "(54::nat) \<le> nat ?e" by simp
    then have "(2::int) ^ 54 \<le> 2 ^ nat ?e" by (rule power_increasing) simp
    with lo assms(2) show False by simp
  qed
  have e0: "- 1022 \<le> ?e" using b1 by simp
  have small: "(of_int m :: rat) \<le> 2 ^ 64"
  proof -
    have "(of_int m :: rat) \<le> 2 ^ 53" using assms(2) by simp
    also have "\<dots> \<le> 2 ^ 64" by simp
    finally show ?thesis .
  qed
  show ?thesis
  proof (cases "?e \<le> 52")
    case True
    let ?u = "(2::rat) powi (?e - 52)"
    let ?n = "m * 2 ^ nat (52 - ?e)"
    have u: "?u = 1 / 2 ^ nat (52 - ?e)"
      using True by (simp add: powi_neg)
    have q: "of_int m / ?u = of_int ?n" unfolding u by simp
    have r: "round_half_even (of_int m / ?u) = ?n"
      by (simp only: q round_half_even_of_int)
    have v: "of_int ?n * ?u = (of_int m :: rat)" unfolding u by simp
    from small have w: "of_int ?n * ?u \<le> (2::rat) ^ 64" by (simp only: v)
    from fl_pos_eqI [OF x A B e0 refl r w] v show ?thesis by simp
  next
    case False
    with e53 have e: "?e = 53" by simp
    with lo have "2 ^ 53 \<le> m" by simp
    with assms(2) have m: "m = 2 ^ 53" by simp
    let ?u = "(2::rat) powi (?e - 52)"
    have u: "?u = 2" by (simp add: e)
    have q: "of_int m / ?u = of_int (2 ^ 52)" unfolding u by (simp add: m)
    have r: "round_half_even (of_int m / ?u) = 2 ^ 52"
      by (simp only: q round_half_even_of_int)
    have w: "of_int (2 ^ 52) * ?u \<le> (2::rat) ^ 64" unfolding u by simp
    from fl_pos_eqI [OF x A B e0 refl r w] have "fl (of_int m) = Num (of_int (2 ^ 52) * 2)"
      unfolding u .
    then show ?thesis by (simp add: m)
  qed
qed

lemma fl_int_exact:
  assumes "\<bar>m\<bar> \<le> 2 ^ 53"
  shows "fl (of_int m) = Num (of_int m)"
proof -
  consider "m = 0" | "0 < m" | "m < 0" by linarith
  then show ?thesis
  proof cases
    case 1 then show ?thesis by simp
  next
    case 2 with assms show ?thesis by (simp add: fl_nat_exact)
  next
    case 3
    with assms have "fl (of_int (- m)) = Num (of_int (- m))"
      by (intro fl_nat_exact) simp_all
    then have "js_neg (fl (of_int m)) = Num (- of_int m)"
      by (simp add: fl_minus)
    then show ?thesis by (cases "fl (of_int m)") simp_all
  qed
qed

lemma overflow_bound_pos: "0 < overflow_bound"
  by (simp add: overflow_bound_def)

lemma rounded_nonneg: "0 \<le> rounded x"
proof -
  have "0 \<le> \<bar>x\<bar> / ulp x" using ulp_pos [of x] by simp
  then have "0 \<le> round_half_even (\<bar>x\<bar> / ulp x)" by (rule round_half_even_nonneg)
  then show ?thesis using ulp_pos [of x] by (simp add: rounded_def)
qed

lemma fl_nonneg:
  assumes "0 \<le> x"
  shows "fl x = PosInfinity \<or> (fl x = Num (val (fl x)) \<and> 0 \<le> val (fl x))"
  using assms rounded_nonneg [of x] by (simp add: fl_def sgn_if)

lemma fl_nonpos:
  assumes "x \<le> 0"
  shows "fl x = NegInfinity \<or> (fl x = Num (val (fl x)) \<and> val (fl x) \<le> 0)"
  using assms rounded_nonneg [of x] by (simp add: fl_def sgn_if)

lemma fl_range:
  assumes "fl x = Num y"
  shows "\<bar>y\<bar> < overflow_bound"
proof (cases "x = 0")
  case True
  with assms overflow_bound_pos show ?thesis by simp
next
  case False
  with assms have "\<not> overflow_bound \<le> rounded x" and "y = sgn x * rounded x"
    by (auto simp: fl_def split: if_splits)
  with False rounded_nonneg [of x] show ?thesis by (simp add: sgn_if abs_mult)
qed

lemma rounded_error: "\<bar>rounded x - \<bar>x\<bar>\<bar> \<le> ulp x / 2"
proof -
  let ?n = "round_half_even (\<bar>x\<bar> / ulp x)"
  have "\<bar>of_int ?n - \<bar>x\<bar> / ulp x\<bar> \<le> 1 / 2" by (rule round_half_even_error)
  then have "\<bar>of_int ?n - \<bar>x\<bar> / ulp x\<bar> * ulp x \<le> 1 / 2 * ulp x"
    using ulp_pos [of x] by (simp only: mult_le_cancel_right_pos)
  moreover have "\<bar>of_int ?n - \<bar>x\<bar> / ulp x\<bar> * ulp x = \<bar>of_int ?n * ulp x - \<bar>x\<bar>\<bar>"
  proof -
    have "\<bar>of_int ?n - \<bar>x\<bar> / ulp x\<bar> * ulp x = \<bar>(of_int ?n - \<bar>x\<bar> / ulp x) * ulp x\<bar>"
      using ulp_pos [of x] by (simp add: abs_mult)
    also have "(of_int ?n - \<bar>x\<bar> / ulp x) * ulp x = of_int ?n * ulp x - \<bar>x\<bar>"
      using ulp_pos [of x] by (simp add: field_simps)
    finally show ?thesis .
  qed
  ultimately show ?thesis by (simp add: rounded_def)
qed

lemma fl_error:
  assumes "fl x = Num y"
  shows "\<bar>y - x\<bar> \<le> ulp x / 2"
proof (cases "x = 0")
  case True
  with assms ulp_pos [of x] show ?thesis by simp
next
  case False
  with assms have y: "y = sgn x * rounded x"
    by (auto simp: fl_def split: if_splits)
  from rounded_error [of x] show ?thesis
    using False by (cases "0 < x") (simp_all add: y sgn_if abs_if split: if_splits)
qed

lemma ulp_bound:
  assumes "x \<noteq> 0"
  shows "ulp x \<le> max (\<bar>x\<bar> / 2 ^ 52) least_ulp"
proof -
  from assms have "0 < \<bar>x\<bar>" by simp
  from floor_log2_bounds [OF this] have "2 powi floor_log2 \<bar>x\<bar> \<le> \<bar>x\<bar>" by simp
  moreover have "(2::rat) powi (floor_log2 \<bar>x\<bar> - 52) = 2 powi floor_log2 \<bar>x\<bar> / 2 ^ 52"
    by (simp add: power_int_diff)
  ultimately have "2 powi (floor_log2 \<bar>x\<bar> - 52) \<le> \<bar>x\<bar> / 2 ^ 52"
    by (simp add: divide_right_mono)
  then show ?thesis unfolding ulp_def by (rule max.mono) simp
qed

lemma least_ulp_le_1: "least_ulp \<le> 1"
proof -
  have "(2::rat) powi (- 1074) \<le> 2 powi 0" by (rule powi_mono) simp
  then show ?thesis by (simp add: least_ulp_def)
qed

lemma overflow_bound_half: "1 \<le> overflow_bound / 2"
proof -
  have "overflow_bound / 2 = 2 ^ 1023" unfolding overflow_bound_def
    by (simp add: power_Suc [symmetric, where n = 1023] del: power_Suc)
  moreover have "(1::rat) \<le> 2 ^ 1023" by (rule one_le_power) simp
  ultimately show ?thesis by simp
qed

lemma fl_finite:
  assumes "\<bar>x\<bar> \<le> overflow_bound / 2"
  shows "fl x = Num (val (fl x))"
proof (cases "x = 0")
  case True then show ?thesis by simp
next
  case False
  from rounded_error [of x] have z: "rounded x \<le> \<bar>x\<bar> + ulp x / 2" by linarith
  have "ulp x \<le> max (\<bar>x\<bar> / 2 ^ 52) least_ulp" using False by (rule ulp_bound)
  also have "\<dots> \<le> overflow_bound / 2"
  proof -
    have "\<bar>x\<bar> / 2 ^ 52 \<le> \<bar>x\<bar>" by (simp add: field_simps)
    with assms have "\<bar>x\<bar> / 2 ^ 52 \<le> overflow_bound / 2" by linarith
    moreover have "least_ulp \<le> overflow_bound / 2"
      using least_ulp_le_1 overflow_bound_half by linarith
    ultimately show ?thesis by simp
  qed
  finally have "ulp x \<le> overflow_bound / 2" .
  with z assms overflow_bound_half have "rounded x < overflow_bound" by linarith
  with False show ?thesis by (simp add: fl_def)
qed

lemma js_add_range: "js_add a b = Num t \<Longrightarrow> \<bar>t\<bar> < overflow_bound"
  by (cases a; cases b) (auto dest: fl_range)

text \<open>The doubles around \<open>2 ^ 53\<close>, and the quotient of the scenario.\<close>

lemma fl_above_2p53: "fl 9007199254740993 = Num 9007199254740992"
proof -
  have "fl 9007199254740993 = Num (of_int 4503599627370496 * 2 powi (53 - 52))"
    by (rule fl_pos_eqI [where e = 53])
      (simp_all add: round_half_even_tie_down [where n = 4503599627370496])
  then show ?thesis by simp
qed

lemma fl_2p53_2: "fl 9007199254740994 = Num 9007199254740994"
proof -
  have "fl 9007199254740994 = Num (of_int 4503599627370497 * 2 powi (53 - 52))"
    by (rule fl_pos_eqI [where e = 53]) simp_all
  then show ?thesis by simp
qed

lemma fl_below_2p54: "fl 18014398509481983 = Num 18014398509481984"
proof -
  have "fl 18014398509481983 = Num (of_int 9007199254740992 * 2 powi (53 - 52))"
    by (rule fl_pos_eqI [where e = 53])
      (simp_all add: round_half_even_tie_up [where n = 9007199254740992])
  then show ?thesis by simp
qed

lemma fl_third: "fl (5500 / 3) = Num (8063085270357333 / 2 ^ 42)"
proof -
  have "fl (5500 / 3) = Num (of_int 8063085270357333 * 2 powi (10 - 52))"
    by (rule fl_pos_eqI [where e = 10])
      (simp_all add: power_int_minus round_half_even_near [where n = 8063085270357333])
  then show ?thesis by (simp add: power_int_minus)
qed

section \<open>Exact arithmetic on whole numbers\<close>

lemma whole_of_int [simp]: "whole (of_int n)"
  by (simp add: whole_def)

lemma whole_0 [simp]: "whole 0"
  by (simp add: whole_def)

lemma whole_numeral [simp]: "whole (numeral k)"
  by (simp add: whole_def)

lemma whole_add: "whole a \<Longrightarrow> whole b \<Longrightarrow> whole (a + b)"
  unfolding whole_def by (metis of_int_add whole_def whole_of_int)

lemma whole_minus: "whole a \<Longrightarrow> whole (- a)"
  unfolding whole_def by (metis of_int_minus whole_def whole_of_int)

lemma whole_diff: "whole a \<Longrightarrow> whole b \<Longrightarrow> whole (a - b)"
  using whole_add [of a "- b"] whole_minus [of b] by simp

lemma fl_whole:
  assumes "whole q" and "\<bar>q\<bar> \<le> 2 ^ 53"
  shows "fl q = Num q"
proof -
  from assms(1) have q: "q = of_int \<lfloor>q\<rfloor>" by (simp add: whole_def)
  with assms(2) have "(of_int \<bar>\<lfloor>q\<rfloor>\<bar> :: rat) \<le> of_int (2 ^ 53)" by simp
  then have "\<bar>\<lfloor>q\<rfloor>\<bar> \<le> 2 ^ 53" by (simp only: of_int_le_iff)
  then have "fl (of_int \<lfloor>q\<rfloor>) = Num (of_int \<lfloor>q\<rfloor>)" by (rule fl_int_exact)
  with q show ?thesis by simp
qed

lemma fl_numeral [simp]:
  "numeral k \<le> (9007199254740992::rat) \<Longrightarrow> fl (numeral k) = Num (numeral k)"
  by (rule fl_whole) simp_all

lemma fl_neg_numeral [simp]:
  "numeral k \<le> (9007199254740992::rat) \<Longrightarrow> fl (- numeral k) = Num (- numeral k)"
  by (simp add: fl_minus)

lemma fl_1 [simp]: "fl 1 = Num 1"
  by (rule fl_whole) (simp_all add: whole_def)

lemma js_add_whole:
  assumes "whole a" and "whole b" and "\<bar>a + b\<bar> \<le> 2 ^ 53"
  shows "js_add (Num a) (Num b) = Num (a + b)"
  using whole_add [OF assms(1,2)] assms(3) by (simp add: fl_whole)

lemma js_sub_whole:
  assumes "whole a" and "whole b" and "\<bar>a - b\<bar> \<le> 2 ^ 53"
  shows "js_sub (Num a) (Num b) = Num (a - b)"
  using whole_diff [OF assms(1,2)] assms(3) by (simp add: js_sub_def fl_whole)

lemma whole_sum_list:
  "list_all (\<lambda>e. whole (f e)) xs \<Longrightarrow> whole (sum_list (map f xs))"
  by (induction xs) (simp_all add: whole_add)

lemma abs_sum_list: "\<bar>sum_list (map f xs)\<bar> \<le> sum_list (map (\<lambda>e. \<bar>f e :: rat\<bar>) xs)"
  using sum_list_abs [of "map f xs"] by (simp add: comp_def)

lemma foldl_js_add_whole:
  assumes "whole a" and "list_all (\<lambda>e. whole (f e)) xs"
    and "\<bar>a\<bar> + sum_list (map (\<lambda>e. \<bar>f e\<bar>) xs) \<le> 2 ^ 53"
  shows "foldl (\<lambda>sum e. js_add sum (Num (f e))) (Num a) xs = Num (a + sum_list (map f xs))"
  using assms
proof (induction xs arbitrary: a)
  case Nil
  then show ?case by simp
next
  case (Cons x xs)
  have nn: "0 \<le> sum_list (map (\<lambda>e. \<bar>f e\<bar>) xs)" by (rule sum_list_nonneg) auto
  from Cons.prems have wx: "whole (f x)" and wxs: "list_all (\<lambda>e. whole (f e)) xs"
    and b: "\<bar>a\<bar> + \<bar>f x\<bar> + sum_list (map (\<lambda>e. \<bar>f e\<bar>) xs) \<le> 2 ^ 53"
    by simp_all
  have tri: "\<bar>a + f x\<bar> \<le> \<bar>a\<bar> + \<bar>f x\<bar>" by (rule abs_triangle_ineq)
  with b nn have "\<bar>a + f x\<bar> \<le> 2 ^ 53" by linarith
  with Cons.prems(1) wx have step: "js_add (Num a) (Num (f x)) = Num (a + f x)"
    by (rule js_add_whole)
  have "\<bar>a + f x\<bar> \<le> \<bar>a\<bar> + \<bar>f x\<bar>" by (rule abs_triangle_ineq)
  with b have "\<bar>a + f x\<bar> + sum_list (map (\<lambda>e. \<bar>f e\<bar>) xs) \<le> 2 ^ 53" by linarith
  with Cons.IH [of "a + f x"] Cons.prems(1) wx wxs
  have "foldl (\<lambda>sum e. js_add sum (Num (f e))) (Num (a + f x)) xs =
        Num (a + f x + sum_list (map f xs))"
    by (simp add: whole_add)
  with step show ?case by (simp add: add.assoc)
qed

lemma magnitudes_nonneg: "0 \<le> magnitudes xs"
  unfolding magnitudes_def by (rule sum_list_nonneg) auto

lemma abs_amounts: "\<bar>amounts xs\<bar> \<le> magnitudes xs"
  unfolding amounts_def magnitudes_def by (rule abs_sum_list)

lemma whole_amounts: "list_all (\<lambda>e. whole (amount e)) xs \<Longrightarrow> whole (amounts xs)"
  unfolding amounts_def by (rule whole_sum_list)

lemma dynamic_sum_exact:
  assumes "list_all (\<lambda>e. whole (amount e)) xs" and "magnitudes xs \<le> 2 ^ 53"
  shows "foldl (\<lambda>sum e. js_add sum (Num (amount e))) (Num 0) xs = Num (amounts xs)"
  using foldl_js_add_whole [of 0 amount xs] assms by (simp add: magnitudes_def amounts_def)

lemma trip_closed_forms:
  assumes "trip_exact s"
  shows "tripDynamicSpent s = Num (amounts (tripExpenses s))"
    and "tripDynamicIncome s = Num (amounts (tripIncomes s))"
    and "tripEffectiveSpent s =
           Num (platinumTicket s - pendingPlatinum s + myFlightShare s + stay s +
             amounts (tripExpenses s))"
    and "tripTotalIncoming s = Num (expectedIncoming s + amounts (tripIncomes s))"
    and "tripRemainingBalance s =
           Num (totalBudget s - platinumTicket s - myFlightShare s - stay s -
             amounts (tripExpenses s) + expectedIncoming s + amounts (tripIncomes s))"
proof -
  let ?D = "amounts (tripExpenses s)" and ?I = "amounts (tripIncomes s)"
  let ?mD = "magnitudes (tripExpenses s)" and ?mI = "magnitudes (tripIncomes s)"
  from assms have w: "whole (totalBudget s)" "whole (platinumTicket s)" "whole (pendingPlatinum s)"
      "whole (myFlightShare s)" "whole (stay s)" "whole (expectedIncoming s)"
    and wl: "list_all (\<lambda>e. whole (amount e)) (tripExpenses s)"
      "list_all (\<lambda>i. whole (amount i)) (tripIncomes s)"
    and b: "\<bar>totalBudget s\<bar> + \<bar>platinumTicket s\<bar> + \<bar>pendingPlatinum s\<bar> + \<bar>myFlightShare s\<bar> +
       \<bar>stay s\<bar> + \<bar>expectedIncoming s\<bar> + ?mD + ?mI \<le> 2 ^ 53"
    by (simp_all add: trip_exact_def)
  have nD: "0 \<le> ?mD" and nI: "0 \<le> ?mI" by (rule magnitudes_nonneg)+
  have aD: "\<bar>?D\<bar> \<le> ?mD" and aI: "\<bar>?I\<bar> \<le> ?mI" by (rule abs_amounts)+
  have wD: "whole ?D" and wI: "whole ?I" using wl by (simp_all add: whole_amounts)
  from b nD nI have "?mD \<le> 2 ^ 53" "?mI \<le> 2 ^ 53" by linarith+
  with wl show D: "tripDynamicSpent s = Num ?D" and I: "tripDynamicIncome s = Num ?I"
    by (simp_all add: tripDynamicSpent_def tripDynamicIncome_def dynamic_sum_exact)
  let ?a1 = "platinumTicket s - pendingPlatinum s"
  let ?a2 = "?a1 + myFlightShare s"
  let ?a3 = "?a2 + stay s"
  let ?a4 = "?a3 + ?D"
  have s1: "js_sub (Num (platinumTicket s)) (Num (pendingPlatinum s)) = Num ?a1"
    using w b nD nI by (intro js_sub_whole) (simp, simp, linarith)
  have w1: "whole ?a1" using w by (simp add: whole_diff)
  have s2: "js_add (Num ?a1) (Num (myFlightShare s)) = Num ?a2"
    using w1 w b nD nI by (intro js_add_whole) (simp, simp, linarith)
  have w2: "whole ?a2" using w1 w by (simp add: whole_add)
  have s3: "js_add (Num ?a2) (Num (stay s)) = Num ?a3"
    using w2 w b nD nI by (intro js_add_whole) (simp, simp, linarith)
  have w3: "whole ?a3" using w2 w by (simp add: whole_add)
  have s4: "js_add (Num ?a3) (Num ?D) = Num ?a4"
    using w3 wD b aD nI by (intro js_add_whole) (simp, simp, linarith)
  have w4: "whole ?a4" using w3 wD by (simp add: whole_add)
  show E: "tripEffectiveSpent s = Num ?a4"
    by (simp only: tripEffectiveSpent_def D s1 s2 s3 s4)
  let ?t = "expectedIncoming s + ?I"
  have s5: "js_add (Num (expectedIncoming s)) (Num ?I) = Num ?t"
    using w wI b aI nD by (intro js_add_whole) (simp, simp, linarith)
  have w5: "whole ?t" using w wI by (simp add: whole_add)
  show T: "tripTotalIncoming s = Num ?t"
    by (simp only: tripTotalIncoming_def I s5)
  let ?r1 = "totalBudget s - ?a4"
  let ?r2 = "?r1 - pendingPlatinum s"
  let ?r3 = "?r2 + ?t"
  have s6: "js_sub (Num (totalBudget s)) (Num ?a4) = Num ?r1"
    using w w4 b aD nI by (intro js_sub_whole) (simp, simp, linarith)
  have w6: "whole ?r1" using w w4 by (simp add: whole_diff)
  have "\<bar>?r2\<bar> \<le> 2 ^ 53" using b aD nI by linarith
  with w6 w(3) have s7: "js_sub (Num ?r1) (Num (pendingPlatinum s)) = Num ?r2"
    by (rule js_sub_whole)
  have w7: "whole ?r2" by (rule whole_diff [OF w6 w(3)])
  have "\<bar>?r3\<bar> \<le> 2 ^ 53" using b aD aI by linarith
  with w7 w5 have s8: "js_add (Num ?r2) (Num ?t) = Num ?r3" by (rule js_add_whole)
  have "tripRemainingBalance s = Num ?r3"
    by (simp only: tripRemainingBalance_def E T s6 s7 s8)
  moreover have "?r3 = totalBudget s - platinumTicket s - myFlightShare s - stay s -
             amounts (tripExpenses s) + expectedIncoming s + amounts (tripIncomes s)"
    by simp
  ultimately show "tripRemainingBalance s =
           Num (totalBudget s - platinumTicket s - myFlightShare s - stay s -
             amounts (tripExpenses s) + expectedIncoming s + amounts (tripIncomes s))"
    by (simp only:)
qed

lemma savings_closed_forms:
  assumes "savings_exact s"
  shows "savingsDynamicSpent s = Num (amounts (savingsExpenses s))"
    and "savingsDynamicIncome s = Num (amounts (savingsIncomes s))"
    and "totalSavingsBalance s =
           Num (baseSavings s + amounts (savingsIncomes s) - amounts (savingsExpenses s))"
proof -
  let ?D = "amounts (savingsExpenses s)" and ?I = "amounts (savingsIncomes s)"
  let ?mD = "magnitudes (savingsExpenses s)" and ?mI = "magnitudes (savingsIncomes s)"
  from assms have w: "whole (baseSavings s)"
    and wl: "list_all (\<lambda>e. whole (amount e)) (savingsExpenses s)"
      "list_all (\<lambda>i. whole (amount i)) (savingsIncomes s)"
    and b: "\<bar>baseSavings s\<bar> + ?mD + ?mI \<le> 2 ^ 53"
    by (simp_all add: savings_exact_def)
  have nD: "0 \<le> ?mD" and nI: "0 \<le> ?mI" by (rule magnitudes_nonneg)+
  have aD: "\<bar>?D\<bar> \<le> ?mD" and aI: "\<bar>?I\<bar> \<le> ?mI" by (rule abs_amounts)+
  have wD: "whole ?D" and wI: "whole ?I" using wl by (simp_all add: whole_amounts)
  from b nD nI have "?mD \<le> 2 ^ 53" "?mI \<le> 2 ^ 53" by linarith+
  with wl show D: "savingsDynamicSpent s = Num ?D" and I: "savingsDynamicIncome s = Num ?I"
    by (simp_all add: savingsDynamicSpent_def savingsDynamicIncome_def dynamic_sum_exact)
  have s1: "js_add (Num (baseSavings s)) (Num ?I) = Num (baseSavings s + ?I)"
    using w wI b aI nD by (intro js_add_whole) (simp, simp, linarith)
  have w1: "whole (baseSavings s + ?I)" using w wI by (simp add: whole_add)
  have s2: "js_sub (Num (baseSavings s + ?I)) (Num ?D) = Num (baseSavings s + ?I - ?D)"
    using w1 wD b aI aD by (intro js_sub_whole) (simp, simp, linarith)
  show "totalSavingsBalance s = Num (baseSavings s + ?I - ?D)"
    by (simp only: totalSavingsBalance_def D I s1 s2)
qed

section \<open>Properties of the calculations\<close>

lemmas entry_defs = lunch_def cab_def gift_def stipend_def refund_def cafe_def

lemmas figure_defs =
  tripEffectiveSpent_def tripTotalIncoming_def tripRemainingBalance_def safeDailySpend_def
  totalSavingsBalance_def

lemmas selection_defs = tripExpenses_def savingsExpenses_def tripIncomes_def savingsIncomes_def

lemmas dynamic_defs =
  tripDynamicSpent_def savingsDynamicSpent_def tripDynamicIncome_def savingsDynamicIncome_def

lemmas exact_defs = trip_exact_def savings_exact_def magnitudes_def amounts_def

text \<open>The exact range and the closed forms read the entries as multisets.\<close>

lemma amounts_filter_mset:
  "amounts (filter P xs) = sum_mset (image_mset amount (filter_mset P (mset xs)))"
  unfolding amounts_def by (induction xs) simp_all

lemma magnitudes_filter_mset:
  "magnitudes (filter P xs) =
     sum_mset (image_mset (\<lambda>e. \<bar>amount e\<bar>) (filter_mset P (mset xs)))"
  unfolding magnitudes_def by (induction xs) simp_all

lemma list_all_filter_mset:
  "list_all Q (filter P xs) \<longleftrightarrow> (\<forall>x. x \<in># mset xs \<longrightarrow> P x \<longrightarrow> Q x)"
  by (auto simp: list_all_iff)

lemmas to_mset = amounts_filter_mset magnitudes_filter_mset list_all_filter_mset

lemma trip_exact_permuted:
  assumes "mset es' = mset (expenses s)" and "mset is' = mset (incomes s)"
  shows "trip_exact (s\<lparr>expenses := es', incomes := is'\<rparr>) = trip_exact s"
  using assms by (simp add: trip_exact_def selection_defs to_mset)

lemma savings_exact_permuted:
  assumes "mset es' = mset (expenses s)" and "mset is' = mset (incomes s)"
  shows "savings_exact (s\<lparr>expenses := es', incomes := is'\<rparr>) = savings_exact s"
  using assms by (simp add: savings_exact_def selection_defs to_mset)

lemma sum_mset_abs_nonneg: "0 \<le> sum_mset (image_mset (\<lambda>e. \<bar>f e :: rat\<bar>) M)"
  by (induction M) simp_all

lemma trip_exact_before:
  assumes "mset es' = mset (expenses s) + mset new"
    and "trip_exact (s\<lparr>expenses := es'\<rparr>)"
  shows "trip_exact s"
  using assms sum_mset_abs_nonneg [of amount "filter_mset (\<lambda>e. accountId e = trip) (mset new)"]
  by (simp add: trip_exact_def selection_defs to_mset)

lemma sum_mset_image_mset: "sum_mset (image_mset f (mset xs)) = sum_list (map f xs)"
  by (induction xs) simp_all

lemma not_trip [simp]: "(a \<noteq> trip) = (a = savings)"
  by (cases a) simp_all

lemma foldl_amounts:
  "foldl (\<lambda>sum e. js_add sum (Num (amount e))) a xs =
     foldl (\<lambda>sum q. js_add sum (Num q)) a (map amount xs)"
  by (simp add: foldl_map)

lemma trip_exact_scenario: "trip_exact scenario"
  by (simp add: scenario_def exact_defs selection_defs)

lemma savings_exact_scenario: "savings_exact scenario"
  by (simp add: scenario_def exact_defs selection_defs)

lemma sds_scenario: "safeDailySpend scenario = Num (8063085270357333 / 2 ^ 42)"
proof -
  have "tripRemainingBalance scenario = Num 5500"
    using trip_closed_forms(5) [OF trip_exact_scenario]
    by (simp add: scenario_def selection_defs amounts_def)
  then show ?thesis by (simp add: safeDailySpend_def fl_third)
qed

text \<open>
  C1 (as amended). With no Expense and no Income entries, and parameters in the exact
  range (whole numbers whose magnitudes add up to at most 2 ^ 53), tripRemainingBalance
  is totalBudget - platinumTicket - myFlightShare - stay + expectedIncoming:
  pendingPlatinum is added back inside tripEffectiveSpent and subtracted once more, so it
  cancels.
\<close>

theorem C1_empty_ledger_closed_form:
  assumes "trip_exact (s\<lparr>expenses := [], incomes := []\<rparr>)"
  shows "tripRemainingBalance (s\<lparr>expenses := [], incomes := []\<rparr>) =
     Num (totalBudget s - platinumTicket s - myFlightShare s - stay s + expectedIncoming s)"
  using trip_closed_forms(5) [OF assms] by (simp add: selection_defs amounts_def)

text \<open>
  C1 at an input: the parameters of the scenario are in the exact range, and
  30000 - 22500 - 11250 - 2000 + 11250 = 5500.
\<close>

theorem C1_witness:
  "trip_exact (scenario\<lparr>expenses := [], incomes := []\<rparr>) \<and>
   tripRemainingBalance (scenario\<lparr>expenses := [], incomes := []\<rparr>) = Num 5500"
proof -
  have e: "trip_exact (scenario\<lparr>expenses := [], incomes := []\<rparr>)"
    by (simp add: scenario_def exact_defs selection_defs)
  from C1_empty_ledger_closed_form [OF e] e show ?thesis
    by (simp add: scenario_def)
qed

text \<open>
  C1 (as stated) fails: in the scenario the ledger is empty, tripRemainingBalance is 5500,
  and the stated closed form, which still subtracts pendingPlatinum, gives -6000.
\<close>

theorem C1_counterexample:
  "expenses scenario = [] \<and> incomes scenario = [] \<and>
   tripRemainingBalance scenario \<noteq>
     Num (totalBudget scenario - platinumTicket scenario - myFlightShare scenario
       - stay scenario - pendingPlatinum scenario + expectedIncoming scenario)"
  using trip_closed_forms(5) [OF trip_exact_scenario]
  by (simp add: scenario_def selection_defs amounts_def)

text \<open>
  Outside the exact range the closed form can be off by the rounding: with
  totalBudget = 2 ^ 53, platinumTicket = 1 and pendingPlatinum = 2 ^ 53 the program
  arrives at 2 ^ 53, and the closed form is 2 ^ 53 - 1.
\<close>

lemma closed_form_rounds:
  "tripRemainingBalance stretched = Num (2 ^ 53) \<and>
   totalBudget stretched - platinumTicket stretched - myFlightShare stretched - stay stretched
     + expectedIncoming stretched = 2 ^ 53 - 1"
  by (simp add: stretched_def figure_defs dynamic_defs selection_defs js_sub_def fl_below_2p54)

text \<open>
  C2. In the scenario tripEffectiveSpent = 24250, tripTotalIncoming = 11250,
  tripRemainingBalance = 5500 and totalSavingsBalance = 50000; safeDailySpend is the
  double nearest to 5500 / 3, which is within half a hundredth of 1833.33 and is 1833.33
  when rounded to two decimals.
\<close>

theorem C2_scenario:
  "tripEffectiveSpent scenario = Num 24250 \<and> tripTotalIncoming scenario = Num 11250 \<and>
   tripRemainingBalance scenario = Num 5500 \<and>
   safeDailySpend scenario = Num (8063085270357333 / 2 ^ 42) \<and>
   \<bar>val (safeDailySpend scenario) - 183333 / 100\<bar> < 1 / 200 \<and>
   round (val (safeDailySpend scenario) * 100) = 183333 \<and>
   totalSavingsBalance scenario = Num 50000"
proof -
  have "tripEffectiveSpent scenario = Num 24250" "tripTotalIncoming scenario = Num 11250"
    "tripRemainingBalance scenario = Num 5500"
    using trip_closed_forms(3,4,5) [OF trip_exact_scenario]
    by (simp_all add: scenario_def selection_defs amounts_def)
  moreover have "totalSavingsBalance scenario = Num 50000"
    using savings_closed_forms(3) [OF savings_exact_scenario]
    by (simp add: scenario_def selection_defs amounts_def)
  moreover have "\<bar>val (safeDailySpend scenario) - 183333 / 100\<bar> < 1 / 200"
    by (simp add: sds_scenario)
  moreover have "round (val (safeDailySpend scenario) * 100) = 183333"
    by (simp add: sds_scenario round_def floor_eq_iff)
  ultimately show ?thesis by (simp add: sds_scenario)
qed

lemma js_max_0_not_negative: "\<not> js_lt (js_max (Num 0) x) (Num 0)"
  by (cases x) simp_all

lemma tripRemainingBalance_range:
  "tripRemainingBalance s = Num t \<Longrightarrow> \<bar>t\<bar> < overflow_bound"
  unfolding tripRemainingBalance_def by (rule js_add_range)

lemma rounded_quotient:
  assumes "\<bar>t\<bar> < overflow_bound"
  shows "js_max (Num 0) (js_div (Num t) (Num 3)) = fl (max 0 (t / 3)) \<and>
         fl (max 0 (t / 3)) = Num (val (fl (max 0 (t / 3)))) \<and>
         \<bar>val (fl (max 0 (t / 3))) - max 0 (t / 3)\<bar>
           \<le> max (max 0 (t / 3) / 2 ^ 53) (least_ulp / 2)"
proof -
  from assms have small: "\<bar>t / 3\<bar> \<le> overflow_bound / 2" by simp
  have fin: "fl (t / 3) = Num (val (fl (t / 3)))" using small by (rule fl_finite)
  show ?thesis
  proof (cases "0 < t")
    case True
    then have m: "max 0 (t / 3) = t / 3" by simp
    from True have "0 \<le> t / 3" by simp
    from fl_nonneg [OF this] fin have nn: "0 \<le> val (fl (t / 3))" by auto
    have "js_max (Num 0) (js_div (Num t) (Num 3)) = js_max (Num 0) (Num (val (fl (t / 3))))"
      using fin by simp
    also have "\<dots> = Num (val (fl (t / 3)))" using nn by simp
    finally have A: "js_max (Num 0) (js_div (Num t) (Num 3)) = fl (t / 3)" using fin by simp
    from True have nz: "t / 3 \<noteq> 0" by simp
    have "\<bar>val (fl (t / 3)) - t / 3\<bar> \<le> ulp (t / 3) / 2" using fin by (rule fl_error)
    also have "\<dots> \<le> max (\<bar>t / 3\<bar> / 2 ^ 52) least_ulp / 2"
      using ulp_bound [OF nz] by simp
    also have "\<dots> = max (\<bar>t / 3\<bar> / 2 ^ 53) (least_ulp / 2)"
      by (simp add: max_def)
    finally have B: "\<bar>val (fl (t / 3)) - t / 3\<bar> \<le> max (t / 3 / 2 ^ 53) (least_ulp / 2)"
      using True by simp
    from A B fin show ?thesis unfolding m by simp
  next
    case False
    then have m: "max 0 (t / 3) = 0" by simp
    from False have "t / 3 \<le> 0" by simp
    from fl_nonpos [OF this] fin have np: "val (fl (t / 3)) \<le> 0" by auto
    have "js_max (Num 0) (js_div (Num t) (Num 3)) = js_max (Num 0) (Num (val (fl (t / 3))))"
      using fin by simp
    also have "\<dots> = Num 0" using np by simp
    finally have A: "js_max (Num 0) (js_div (Num t) (Num 3)) = Num 0" .
    have "(0::rat) \<le> max 0 (least_ulp / 2)" by simp
    with A show ?thesis unfolding m by simp
  qed
qed

text \<open>
  C3. safeDailySpend is Math.max(0, tripRemainingBalance / 3). It is never negative,
  whatever tripRemainingBalance is, an infinity and NaN included. When
  tripRemainingBalance is a finite number t, safeDailySpend is finite and is the double
  nearest to the quotient max(0, t / 3) of the rationals: the division does not truncate,
  and the only rounding is that to the double, at most one part in 2 ^ 53 of the quotient
  (or half the least positive double).
\<close>

theorem C3_safeDailySpend:
  "safeDailySpend s = js_max (Num 0) (js_div (tripRemainingBalance s) (Num 3)) \<and>
   \<not> js_lt (safeDailySpend s) (Num 0) \<and>
   (tripRemainingBalance s = Num t \<longrightarrow>
      safeDailySpend s = fl (max 0 (t / 3)) \<and>
      safeDailySpend s = Num (val (safeDailySpend s)) \<and>
      \<bar>val (safeDailySpend s) - max 0 (t / 3)\<bar> \<le> max (max 0 (t / 3) / 2 ^ 53) (least_ulp / 2))"
proof -
  have "safeDailySpend s = js_max (Num 0) (js_div (tripRemainingBalance s) (Num 3))"
    by (simp add: safeDailySpend_def)
  moreover have "\<not> js_lt (safeDailySpend s) (Num 0)"
    unfolding safeDailySpend_def by (rule js_max_0_not_negative)
  moreover have "tripRemainingBalance s = Num t \<longrightarrow>
      safeDailySpend s = fl (max 0 (t / 3)) \<and>
      safeDailySpend s = Num (val (safeDailySpend s)) \<and>
      \<bar>val (safeDailySpend s) - max 0 (t / 3)\<bar> \<le> max (max 0 (t / 3) / 2 ^ 53) (least_ulp / 2)"
  proof
    assume t: "tripRemainingBalance s = Num t"
    then have "\<bar>t\<bar> < overflow_bound" by (rule tripRemainingBalance_range)
    from rounded_quotient [OF this] t
    show "safeDailySpend s = fl (max 0 (t / 3)) \<and>
      safeDailySpend s = Num (val (safeDailySpend s)) \<and>
      \<bar>val (safeDailySpend s) - max 0 (t / 3)\<bar> \<le> max (max 0 (t / 3) / 2 ^ 53) (least_ulp / 2)"
      by (simp add: safeDailySpend_def)
  qed
  ultimately show ?thesis by blast
qed

text \<open>
  C3 at an input: in the scenario tripRemainingBalance is 5500, and safeDailySpend is
  the double nearest to 5500 / 3, not 1833.
\<close>

theorem C3_witness:
  "tripRemainingBalance scenario = Num 5500 \<and>
   safeDailySpend scenario = fl (5500 / 3) \<and>
   safeDailySpend scenario = Num (8063085270357333 / 2 ^ 42) \<and>
   \<bar>val (safeDailySpend scenario) - 5500 / 3\<bar> \<le> 5500 / 3 / 2 ^ 53 \<and>
   safeDailySpend scenario \<noteq> Num 1833"
proof -
  have t: "tripRemainingBalance scenario = Num 5500"
    using trip_closed_forms(5) [OF trip_exact_scenario]
    by (simp add: scenario_def selection_defs amounts_def)
  from C3_safeDailySpend [of scenario 5500] t
  have "safeDailySpend scenario = fl (max 0 (5500 / 3))" by blast
  then have "safeDailySpend scenario = fl (5500 / 3)" by simp
  moreover have "\<bar>val (safeDailySpend scenario) - 5500 / 3\<bar> \<le> 5500 / 3 / 2 ^ 53"
    by (simp add: sds_scenario)
  moreover have "safeDailySpend scenario \<noteq> Num 1833"
    by (simp add: sds_scenario)
  ultimately show ?thesis using t by (simp add: sds_scenario)
qed

text \<open>
  C5 (as amended). When the expenses after the appends are the expenses before together
  with new entries that are all tagged trip, in any order, nothing else changes, and the
  trip figures after the appends are in the exact range (parameters and trip amounts are
  whole numbers whose magnitudes add up to at most 2 ^ 53), both figures are finite
  before the appends, tripEffectiveSpent has grown by the sum of the new amounts and
  tripRemainingBalance has shrunk by the same sum.
\<close>

theorem C5_trip_expenses_add_up:
  assumes "mset es' = mset (expenses s) + mset new"
    and "\<forall>e\<in>set new. accountId e = trip"
    and "trip_exact (s\<lparr>expenses := es'\<rparr>)"
  shows "tripEffectiveSpent s = Num (val (tripEffectiveSpent s)) \<and>
         tripRemainingBalance s = Num (val (tripRemainingBalance s)) \<and>
         tripEffectiveSpent (s\<lparr>expenses := es'\<rparr>) =
           Num (val (tripEffectiveSpent s) + sum_list (map amount new)) \<and>
         tripRemainingBalance (s\<lparr>expenses := es'\<rparr>) =
           Num (val (tripRemainingBalance s) - sum_list (map amount new))"
proof -
  from assms(1,3) have before: "trip_exact s" by (rule trip_exact_before)
  from assms(2) have "filter_mset (\<lambda>e. accountId e = trip) (mset new) = mset new"
    by (simp add: filter_mset_eq_conv)
  with assms(1)
  have "amounts (tripExpenses (s\<lparr>expenses := es'\<rparr>)) =
          amounts (tripExpenses s) + sum_list (map amount new)"
    by (simp add: tripExpenses_def amounts_filter_mset sum_mset_image_mset)
  moreover have "tripIncomes (s\<lparr>expenses := es'\<rparr>) = tripIncomes s"
    by (simp add: tripIncomes_def)
  ultimately show ?thesis
    using trip_closed_forms(3,5) [OF assms(3)] trip_closed_forms(3,5) [OF before]
    by simp
qed

text \<open>
  C5 at an input: \<open>lunch\<close> (500) and \<open>cab\<close> (320) are appended to a ledger that holds
  \<open>gift\<close>; the figures move by 820.
\<close>

theorem C5_witness:
  "mset [cab, gift, lunch] = mset (expenses (scenario\<lparr>expenses := [gift]\<rparr>)) + mset [lunch, cab] \<and>
   accountId lunch = trip \<and> accountId cab = trip \<and>
   trip_exact (scenario\<lparr>expenses := [cab, gift, lunch]\<rparr>) \<and>
   tripEffectiveSpent (scenario\<lparr>expenses := [gift]\<rparr>) = Num 24250 \<and>
   tripEffectiveSpent (scenario\<lparr>expenses := [cab, gift, lunch]\<rparr>) = Num 25070 \<and>
   tripRemainingBalance (scenario\<lparr>expenses := [gift]\<rparr>) = Num 5500 \<and>
   tripRemainingBalance (scenario\<lparr>expenses := [cab, gift, lunch]\<rparr>) = Num 4680"
proof -
  let ?s = "scenario\<lparr>expenses := [gift]\<rparr>"
  have m: "mset [cab, gift, lunch] = mset (expenses ?s) + mset [lunch, cab]" by simp
  have t: "\<forall>e\<in>set [lunch, cab]. accountId e = trip" by (simp add: entry_defs)
  have x: "trip_exact (?s\<lparr>expenses := [cab, gift, lunch]\<rparr>)"
    by (simp add: scenario_def exact_defs selection_defs entry_defs)
  have x0: "trip_exact ?s"
    by (simp add: scenario_def exact_defs selection_defs entry_defs)
  have b: "tripEffectiveSpent ?s = Num 24250" "tripRemainingBalance ?s = Num 5500"
    using trip_closed_forms(3,5) [OF x0]
    by (simp_all add: scenario_def selection_defs amounts_def entry_defs)
  from C5_trip_expenses_add_up [OF m t x] m t x b show ?thesis
    by (simp add: entry_defs)
qed

text \<open>
  C5 (as stated) fails: to a ledger that holds a trip expense of 2 ^ 53 a trip expense of
  1 is appended, and tripEffectiveSpent stays 2 ^ 53, whether the new entry comes first or
  last: 2 ^ 53 + 1 is not a double.
\<close>

theorem C5_counterexample:
  "mset [tea, villa] = mset (expenses (blank\<lparr>expenses := [villa]\<rparr>)) + mset [tea] \<and>
   accountId tea = trip \<and> amount tea = 1 \<and>
   tripEffectiveSpent (blank\<lparr>expenses := [villa]\<rparr>) = Num (2 ^ 53) \<and>
   tripEffectiveSpent (blank\<lparr>expenses := [tea, villa]\<rparr>) = Num (2 ^ 53) \<and>
   tripEffectiveSpent (blank\<lparr>expenses := [villa, tea]\<rparr>) = Num (2 ^ 53)"
  by (simp add: blank_def villa_def tea_def figure_defs dynamic_defs selection_defs js_sub_def
      fl_above_2p53)

text \<open>
  C6. totalSavingsBalance depends only on baseSavings and on the amounts of the expenses
  and incomes that are not tagged trip, in their order: two states that agree on these
  have the same totalSavingsBalance, whatever trip-tagged entries were added to either or
  removed from it, whatever their places and their other parameters.
\<close>

theorem C6_account_isolation:
  assumes "baseSavings s' = baseSavings s"
    and "map amount (filter (\<lambda>e. accountId e \<noteq> trip) (expenses s')) =
         map amount (filter (\<lambda>e. accountId e \<noteq> trip) (expenses s))"
    and "map amount (filter (\<lambda>i. accountId i \<noteq> trip) (incomes s')) =
         map amount (filter (\<lambda>i. accountId i \<noteq> trip) (incomes s))"
  shows "totalSavingsBalance (s'\<lparr>places := ps\<rparr>) = totalSavingsBalance s"
proof -
  have "savingsDynamicSpent (s'\<lparr>places := ps\<rparr>) = savingsDynamicSpent s"
    using assms(2) by (simp add: savingsDynamicSpent_def savingsExpenses_def foldl_amounts)
  moreover have "savingsDynamicIncome (s'\<lparr>places := ps\<rparr>) = savingsDynamicIncome s"
    using assms(3) by (simp add: savingsDynamicIncome_def savingsIncomes_def foldl_amounts)
  ultimately show ?thesis
    using assms(1) by (simp add: totalSavingsBalance_def)
qed

text \<open>
  C6 at an input: two trip expenses, a trip income and a place are added to a ledger
  that holds \<open>gift\<close> and \<open>stipend\<close>, and totalBudget is changed; totalSavingsBalance is
  50800 before and after.
\<close>

theorem C6_witness:
  "map amount (filter (\<lambda>e. accountId e \<noteq> trip) [lunch, gift, cab]) =
     map amount (filter (\<lambda>e. accountId e \<noteq> trip) [gift]) \<and>
   map amount (filter (\<lambda>i. accountId i \<noteq> trip) [refund, stipend]) =
     map amount (filter (\<lambda>i. accountId i \<noteq> trip) [stipend]) \<and>
   totalSavingsBalance (scenario\<lparr>expenses := [gift], incomes := [stipend]\<rparr>) = Num 50800 \<and>
   totalSavingsBalance (scenario\<lparr>totalBudget := 1, expenses := [lunch, gift, cab],
      incomes := [refund, stipend], places := [cafe]\<rparr>) = Num 50800"
proof -
  let ?s = "scenario\<lparr>expenses := [gift], incomes := [stipend]\<rparr>"
  let ?s' = "scenario\<lparr>totalBudget := 1, expenses := [lunch, gift, cab],
    incomes := [refund, stipend]\<rparr>"
  have b: "baseSavings ?s' = baseSavings ?s" by simp
  have e: "map amount (filter (\<lambda>e. accountId e \<noteq> trip) (expenses ?s')) =
           map amount (filter (\<lambda>e. accountId e \<noteq> trip) (expenses ?s))"
    by (simp add: entry_defs)
  have i: "map amount (filter (\<lambda>i. accountId i \<noteq> trip) (incomes ?s')) =
           map amount (filter (\<lambda>i. accountId i \<noteq> trip) (incomes ?s))"
    by (simp add: entry_defs)
  have x: "savings_exact ?s"
    by (simp add: scenario_def exact_defs selection_defs entry_defs)
  have v: "totalSavingsBalance ?s = Num 50800"
    using savings_closed_forms(3) [OF x]
    by (simp add: scenario_def selection_defs amounts_def entry_defs)
  from C6_account_isolation [OF b e i, of "[cafe]"] v e i show ?thesis
    by simp
qed

text \<open>
  C7 (as amended). In the exact range (parameters and amounts are whole numbers whose
  magnitudes add up to at most 2 ^ 53, for the trip figures and for the savings figures)
  the calculations are independent of the order of the entries: when the lists of
  expenses and of incomes are replaced by permutations of themselves, the four dynamic
  sums and the five derived figures keep their values.
\<close>

theorem C7_order_independent:
  assumes "mset es' = mset (expenses s)" and "mset is' = mset (incomes s)"
    and "trip_exact s" and "savings_exact s"
  shows "tripDynamicSpent (s\<lparr>expenses := es', incomes := is'\<rparr>) = tripDynamicSpent s \<and>
         savingsDynamicSpent (s\<lparr>expenses := es', incomes := is'\<rparr>) = savingsDynamicSpent s \<and>
         tripDynamicIncome (s\<lparr>expenses := es', incomes := is'\<rparr>) = tripDynamicIncome s \<and>
         savingsDynamicIncome (s\<lparr>expenses := es', incomes := is'\<rparr>) = savingsDynamicIncome s \<and>
         tripEffectiveSpent (s\<lparr>expenses := es', incomes := is'\<rparr>) = tripEffectiveSpent s \<and>
         tripTotalIncoming (s\<lparr>expenses := es', incomes := is'\<rparr>) = tripTotalIncoming s \<and>
         tripRemainingBalance (s\<lparr>expenses := es', incomes := is'\<rparr>) = tripRemainingBalance s \<and>
         safeDailySpend (s\<lparr>expenses := es', incomes := is'\<rparr>) = safeDailySpend s \<and>
         totalSavingsBalance (s\<lparr>expenses := es', incomes := is'\<rparr>) = totalSavingsBalance s"
proof -
  let ?s' = "s\<lparr>expenses := es', incomes := is'\<rparr>"
  from assms have t': "trip_exact ?s'" and v': "savings_exact ?s'"
    by (simp_all add: trip_exact_permuted savings_exact_permuted)
  from assms(1,2) have a:
    "amounts (tripExpenses ?s') = amounts (tripExpenses s)"
    "amounts (tripIncomes ?s') = amounts (tripIncomes s)"
    "amounts (savingsExpenses ?s') = amounts (savingsExpenses s)"
    "amounts (savingsIncomes ?s') = amounts (savingsIncomes s)"
    by (simp_all add: selection_defs amounts_filter_mset)
  have trb: "tripRemainingBalance ?s' = tripRemainingBalance s"
    using trip_closed_forms(5) [OF t'] trip_closed_forms(5) [OF assms(3)] a by simp
  show ?thesis
    using trip_closed_forms(1-4) [OF t'] trip_closed_forms(1-4) [OF assms(3)]
      savings_closed_forms [OF v'] savings_closed_forms [OF assms(4)] a trb
    by (simp add: safeDailySpend_def)
qed

text \<open>
  C7 at an input: the three expenses and the two incomes in another order give the same
  tripRemainingBalance and the same totalSavingsBalance.
\<close>

theorem C7_witness:
  "mset [cab, lunch, gift] =
     mset (expenses (scenario\<lparr>expenses := [lunch, gift, cab], incomes := [stipend, refund]\<rparr>)) \<and>
   mset [refund, stipend] =
     mset (incomes (scenario\<lparr>expenses := [lunch, gift, cab], incomes := [stipend, refund]\<rparr>)) \<and>
   trip_exact (scenario\<lparr>expenses := [lunch, gift, cab], incomes := [stipend, refund]\<rparr>) \<and>
   savings_exact (scenario\<lparr>expenses := [lunch, gift, cab], incomes := [stipend, refund]\<rparr>) \<and>
   tripRemainingBalance (scenario\<lparr>expenses := [cab, lunch, gift], incomes := [refund, stipend]\<rparr>) =
     tripRemainingBalance (scenario\<lparr>expenses := [lunch, gift, cab], incomes := [stipend, refund]\<rparr>) \<and>
   totalSavingsBalance (scenario\<lparr>expenses := [cab, lunch, gift], incomes := [refund, stipend]\<rparr>) =
     totalSavingsBalance (scenario\<lparr>expenses := [lunch, gift, cab], incomes := [stipend, refund]\<rparr>)"
proof -
  let ?s = "scenario\<lparr>expenses := [lunch, gift, cab], incomes := [stipend, refund]\<rparr>"
  have e: "mset [cab, lunch, gift] = mset (expenses ?s)" by (simp add: entry_defs)
  have i: "mset [refund, stipend] = mset (incomes ?s)" by (simp add: entry_defs)
  have t: "trip_exact ?s" by (simp add: scenario_def exact_defs selection_defs entry_defs)
  have v: "savings_exact ?s" by (simp add: scenario_def exact_defs selection_defs entry_defs)
  from C7_order_independent [OF e i t v] e i t v show ?thesis by simp
qed

text \<open>
  C7 (as stated) fails: the trip expenses 1, 1 and 2 ^ 53 add up to 2 ^ 53 + 2 in this
  order and to 2 ^ 53 when the largest comes first.
\<close>

theorem C7_counterexample:
  "mset [villa, tea, toll] = mset (expenses (blank\<lparr>expenses := [tea, toll, villa]\<rparr>)) \<and>
   tripDynamicSpent (blank\<lparr>expenses := [tea, toll, villa]\<rparr>) = Num (2 ^ 53 + 2) \<and>
   tripDynamicSpent (blank\<lparr>expenses := [villa, tea, toll]\<rparr>) = Num (2 ^ 53) \<and>
   tripDynamicSpent (blank\<lparr>expenses := [villa, tea, toll]\<rparr>) \<noteq>
     tripDynamicSpent (blank\<lparr>expenses := [tea, toll, villa]\<rparr>)"
  by (simp add: blank_def villa_def tea_def toll_def dynamic_defs selection_defs
      fl_above_2p53 fl_2p53_2)

section \<open>Properties of the server\<close>

lemmas server_defs =
  run_def serve_def unchanged_on_error_def post_api_expenses_def post_api_incomes_def
  post_api_places_def post_api_finances_def post_api_auth_register_def lastInsertRowid_def
  insert_row_def registered_def ids_def initial_db_def

lemma run_busy_day:
  "run initial_db busy_day =
     \<lparr>users_tbl = [(1, ''asha''), (2, ''ravi'')],
      finances_tbl = [1 \<mapsto> default_finances, 2 \<mapsto> FixedParameters.truncate scenario],
      expenses_tbl = [(1, lunch), (2, gift), (1, cab)],
      incomes_tbl = [(1, stipend), (1, refund)],
      places_tbl = [(1, cafe)]\<rparr>"
  by (simp add: busy_day_def server_defs entry_defs Let_def numeral_2_eq_2)

subsection \<open>Appending\<close>

text \<open>
  C4 (as amended). For a registered owner, an append fails exactly when its identifier is
  already that of a row of the table of the same kind, whichever user the row belongs to;
  identifiers in the other two tables play no part. When the identifier is new to that
  table the append succeeds and adds the row, after the rows the table has.
\<close>

theorem C4_duplicate_in_same_table:
  assumes "registered db uid"
  shows
  "(isl (post_api_expenses db uid e) \<longleftrightarrow> id' e \<in> set (ids (expenses_tbl db))) \<and>
   (id' e \<in> set (ids (expenses_tbl db)) \<longrightarrow>
      post_api_expenses db uid e = Inl SQLITE_CONSTRAINT_PRIMARYKEY) \<and>
   (id' e \<notin> set (ids (expenses_tbl db)) \<longrightarrow>
      post_api_expenses db uid e = Inr (db\<lparr>expenses_tbl := expenses_tbl db @ [(uid, e)]\<rparr>)) \<and>
   (isl (post_api_incomes db uid i) \<longleftrightarrow> id' i \<in> set (ids (incomes_tbl db))) \<and>
   (id' i \<in> set (ids (incomes_tbl db)) \<longrightarrow>
      post_api_incomes db uid i = Inl SQLITE_CONSTRAINT_PRIMARYKEY) \<and>
   (id' i \<notin> set (ids (incomes_tbl db)) \<longrightarrow>
      post_api_incomes db uid i = Inr (db\<lparr>incomes_tbl := incomes_tbl db @ [(uid, i)]\<rparr>)) \<and>
   (isl (post_api_places db uid p) \<longleftrightarrow> id' p \<in> set (ids (places_tbl db))) \<and>
   (id' p \<in> set (ids (places_tbl db)) \<longrightarrow>
      post_api_places db uid p = Inl SQLITE_CONSTRAINT_PRIMARYKEY) \<and>
   (id' p \<notin> set (ids (places_tbl db)) \<longrightarrow>
      post_api_places db uid p = Inr (db\<lparr>places_tbl := places_tbl db @ [(uid, p)]\<rparr>))"
  using assms
  by (simp add: post_api_expenses_def post_api_incomes_def post_api_places_def insert_row_def)

text \<open>
  C4 at an input: after \<open>busy_day\<close>, user 2 cannot append \<open>lunch\<close> again, which user 1
  appended, nor the place \<open>cafe\<close>; \<open>dinner\<close> and the income \<open>payback\<close> go in.
\<close>

theorem C4_witness:
  "registered (run initial_db busy_day) 2 \<and>
   post_api_expenses (run initial_db busy_day) 2 lunch = Inl SQLITE_CONSTRAINT_PRIMARYKEY \<and>
   post_api_expenses (run initial_db busy_day) 2 dinner =
     Inr ((run initial_db busy_day)
       \<lparr>expenses_tbl := expenses_tbl (run initial_db busy_day) @ [(2, dinner)]\<rparr>) \<and>
   post_api_incomes (run initial_db busy_day) 2 payback =
     Inr ((run initial_db busy_day)
       \<lparr>incomes_tbl := incomes_tbl (run initial_db busy_day) @ [(2, payback)]\<rparr>) \<and>
   post_api_places (run initial_db busy_day) 2 cafe = Inl SQLITE_CONSTRAINT_PRIMARYKEY"
proof -
  have r: "registered (run initial_db busy_day) 2"
    by (simp add: run_busy_day registered_def)
  have i: "id' lunch \<in> set (ids (expenses_tbl (run initial_db busy_day)))"
    "id' dinner \<notin> set (ids (expenses_tbl (run initial_db busy_day)))"
    "id' payback \<notin> set (ids (incomes_tbl (run initial_db busy_day)))"
    "id' cafe \<in> set (ids (places_tbl (run initial_db busy_day)))"
    by (simp_all add: run_busy_day ids_def entry_defs dinner_def payback_def)
  from C4_duplicate_in_same_table [OF r, of lunch payback cafe]
    C4_duplicate_in_same_table [OF r, of dinner payback cafe] r i
  show ?thesis by simp
qed

text \<open>
  C4 (as stated) fails in both directions, for registered users. User 1 holds an income
  with the identifier of \<open>lunch\<close>, and the expense \<open>lunch\<close> is appended all the same;
  user 1 holds no entry with that identifier, user 2 holds an expense with it, and the
  append of user 1 fails.
\<close>

theorem C4_counterexample:
  "registered (run initial_db [Register ''asha'', PostIncome 1 payback]) 1 \<and>
   id_used_by_owner (run initial_db [Register ''asha'', PostIncome 1 payback]) 1 (id' lunch) \<and>
   \<not> isl (post_api_expenses (run initial_db [Register ''asha'', PostIncome 1 payback]) 1 lunch) \<and>
   registered (run initial_db [Register ''asha'', Register ''ravi'', PostExpense 2 lunch]) 1 \<and>
   \<not> id_used_by_owner
       (run initial_db [Register ''asha'', Register ''ravi'', PostExpense 2 lunch]) 1 (id' lunch) \<and>
   post_api_expenses
       (run initial_db [Register ''asha'', Register ''ravi'', PostExpense 2 lunch]) 1 lunch =
     Inl SQLITE_CONSTRAINT_PRIMARYKEY"
  by (simp add: server_defs id_used_by_owner_def owned_def payback_def lunch_def Let_def)

subsection \<open>Listing\<close>

lemma mset_select_desc: "mset (select_desc uid t) = mset (owned uid t)"
  by (simp add: select_desc_def owned_def)

lemma sorted_select_desc: "sorted_wrt (\<lambda>a b. id' b \<le> id' a) (select_desc uid t)"
proof -
  let ?rows = "sort_key (\<lambda>r. id' (snd r)) (filter (\<lambda>r. fst r = uid) t)"
  have "sorted (map (\<lambda>r. id' (snd r)) ?rows)"
    by (rule sorted_sort_key)
  then have "sorted_wrt (\<lambda>a b. id' a \<le> id' b) (map snd ?rows)"
    by (simp add: sorted_wrt_map)
  then have "sorted_wrt (\<lambda>a b. id' b \<le> id' a) (rev (map snd ?rows))"
    by (simp add: sorted_wrt_rev)
  then show ?thesis
    by (simp add: select_desc_def rev_map)
qed

lemma select_desc_increasing:
  assumes "sorted_wrt (<) (map id' (owned uid t))"
  shows "select_desc uid t = most_recent_first uid t"
proof -
  let ?rows = "filter (\<lambda>r. fst r = uid) t"
  from assms have "sorted_wrt (<) (map (\<lambda>r. id' (snd r)) ?rows)"
    by (simp add: owned_def comp_def)
  then have "sorted (map (\<lambda>r. id' (snd r)) ?rows)"
    by (rule strict_sorted_imp_sorted)
  then have "sort_key (\<lambda>r. id' (snd r)) ?rows = ?rows"
    by (rule sort_key_id_if_sorted)
  then show ?thesis
    by (simp add: select_desc_def most_recent_first_def owned_def rev_map)
qed

lemma listExpenses_select: "listExpenses db uid = select_desc uid (expenses_tbl db)"
  by (simp add: listExpenses_def load_def fetchData_def get_api_data_def)

lemma listIncomes_select: "listIncomes db uid = select_desc uid (incomes_tbl db)"
  by (simp add: listIncomes_def load_def fetchData_def get_api_data_def)

lemma listPlaces_select: "listPlaces db uid = select_desc uid (places_tbl db)"
  by (simp add: listPlaces_def load_def fetchData_def get_api_data_def)

lemmas list_select = listExpenses_select listIncomes_select listPlaces_select

text \<open>
  C8 (as amended). listExpenses, listIncomes and listPlaces return exactly the owner's
  entries of their kind, by descending identifier in the order of text. That is the most
  recently appended first whenever the owner's identifiers were appended in increasing
  order.
\<close>

theorem C8_lists_by_descending_id:
  "mset (listExpenses db uid) = mset (owned uid (expenses_tbl db)) \<and>
   mset (listIncomes db uid) = mset (owned uid (incomes_tbl db)) \<and>
   mset (listPlaces db uid) = mset (owned uid (places_tbl db)) \<and>
   sorted_wrt (\<lambda>a b. id' b \<le> id' a) (listExpenses db uid) \<and>
   sorted_wrt (\<lambda>a b. id' b \<le> id' a) (listIncomes db uid) \<and>
   sorted_wrt (\<lambda>a b. id' b \<le> id' a) (listPlaces db uid) \<and>
   (sorted_wrt (<) (map id' (owned uid (expenses_tbl db))) \<longrightarrow>
      listExpenses db uid = most_recent_first uid (expenses_tbl db)) \<and>
   (sorted_wrt (<) (map id' (owned uid (incomes_tbl db))) \<longrightarrow>
      listIncomes db uid = most_recent_first uid (incomes_tbl db)) \<and>
   (sorted_wrt (<) (map id' (owned uid (places_tbl db))) \<longrightarrow>
      listPlaces db uid = most_recent_first uid (places_tbl db))"
  by (simp add: list_select mset_select_desc sorted_select_desc select_desc_increasing)

text \<open>
  C8 at an input: after \<open>busy_day\<close> the identifiers of user 1 are increasing in each
  table, and the lists are the entries of user 1, the latest first.
\<close>

theorem C8_witness:
  "sorted_wrt (<) (map id' (owned 1 (expenses_tbl (run initial_db busy_day)))) \<and>
   sorted_wrt (<) (map id' (owned 1 (incomes_tbl (run initial_db busy_day)))) \<and>
   sorted_wrt (<) (map id' (owned 1 (places_tbl (run initial_db busy_day)))) \<and>
   listExpenses (run initial_db busy_day) 1 = [cab, lunch] \<and>
   listIncomes (run initial_db busy_day) 1 = [refund, stipend] \<and>
   listPlaces (run initial_db busy_day) 1 = [cafe]"
  using C8_lists_by_descending_id [of "run initial_db busy_day" 1]
  by (simp add: run_busy_day owned_def most_recent_first_def entry_defs)

text \<open>
  C8 (as stated) fails: user 1 registers, appends \<open>dinner\<close> (identifier 9), then \<open>metro\<close>
  (identifier 10); as text 10 comes before 9, so the list has \<open>dinner\<close> first, although
  \<open>metro\<close> is the most recently appended.
\<close>

theorem C8_counterexample:
  "registered (run initial_db [Register ''asha'']) 1 \<and>
   listExpenses (run initial_db [Register ''asha'', PostExpense 1 dinner, PostExpense 1 metro]) 1
     = [dinner, metro] \<and>
   most_recent_first 1
     (expenses_tbl (run initial_db [Register ''asha'', PostExpense 1 dinner, PostExpense 1 metro]))
     = [metro, dinner] \<and>
   [dinner, metro] \<noteq> [metro, dinner]"
  by (simp add: server_defs listExpenses_select select_desc_def most_recent_first_def owned_def
      dinner_def metro_def Let_def)

subsection \<open>The fixed parameters\<close>

lemma serve_untouched:
  "untouched uid db \<Longrightarrow> \<not> sets_finances uid r \<Longrightarrow> untouched uid (serve db r)"
  by (cases r)
    (auto simp: untouched_def serve_def unchanged_on_error_def post_api_expenses_def
      post_api_incomes_def post_api_places_def post_api_finances_def
      post_api_auth_register_def Let_def
      split: sum.splits option.splits)

lemma run_untouched:
  "untouched uid db \<Longrightarrow> \<forall>r\<in>set rs. \<not> sets_finances uid r \<Longrightarrow> untouched uid (run db rs)"
  unfolding run_def
  by (induction rs arbitrary: db) (simp_all add: serve_untouched)

lemma load_untouched:
  assumes "untouched uid db"
  shows "FixedParameters.truncate (load db uid) = default_finances"
  using assms
  by (auto simp: untouched_def load_def fetchData_def get_api_data_def or0_def
      default_finances_def FixedParameters.truncate_def)

text \<open>
  C9. Whatever requests the server has handled since the database was created, if none
  of them saved parameters for the owner, then loading the owner's data gives 0 for each
  of the eight parameters. Loading returns a state and has no error case, whether the
  owner has a row of defaults or no row at all.
\<close>

theorem C9_defaults_when_never_set:
  assumes "\<forall>r\<in>set rs. \<not> sets_finances uid r"
  shows "totalBudget (load (run initial_db rs) uid) = 0 \<and>
         platinumTicket (load (run initial_db rs) uid) = 0 \<and>
         pendingPlatinum (load (run initial_db rs) uid) = 0 \<and>
         flightTotal (load (run initial_db rs) uid) = 0 \<and>
         myFlightShare (load (run initial_db rs) uid) = 0 \<and>
         stay (load (run initial_db rs) uid) = 0 \<and>
         expectedIncoming (load (run initial_db rs) uid) = 0 \<and>
         baseSavings (load (run initial_db rs) uid) = 0"
proof -
  have "untouched uid initial_db"
    by (simp add: untouched_def initial_db_def)
  then have "untouched uid (run initial_db rs)"
    using assms by (rule run_untouched)
  then have "FixedParameters.truncate (load (run initial_db rs) uid) = default_finances"
    by (rule load_untouched)
  then show ?thesis
    by (simp add: FixedParameters.truncate_def default_finances_def)
qed

text \<open>
  C9 at an input: in \<open>busy_day\<close> user 1 registers and appends entries, user 2 saves
  parameters; the parameters of user 1 read as 0.
\<close>

theorem C9_witness:
  "filter (sets_finances 1) busy_day = [] \<and>
   totalBudget (load (run initial_db busy_day) 1) = 0 \<and>
   platinumTicket (load (run initial_db busy_day) 1) = 0 \<and>
   pendingPlatinum (load (run initial_db busy_day) 1) = 0 \<and>
   flightTotal (load (run initial_db busy_day) 1) = 0 \<and>
   myFlightShare (load (run initial_db busy_day) 1) = 0 \<and>
   stay (load (run initial_db busy_day) 1) = 0 \<and>
   expectedIncoming (load (run initial_db busy_day) 1) = 0 \<and>
   baseSavings (load (run initial_db busy_day) 1) = 0"
proof -
  have never: "\<forall>r\<in>set busy_day. \<not> sets_finances 1 r"
    by (simp add: busy_day_def)
  have "filter (sets_finances 1) busy_day = []"
    by (simp add: busy_day_def)
  with C9_defaults_when_never_set [OF never] show ?thesis
    by simp
qed

text \<open>
  C10. flightTotal has no effect on any derived figure: whatever value it is given,
  tripEffectiveSpent, tripTotalIncoming, tripRemainingBalance, safeDailySpend and
  totalSavingsBalance stay the same. It is stored and returned all the same: once a user
  with a \<open>finances\<close> row has saved parameters, loading gives back their flightTotal.
\<close>

theorem C10_flightTotal_unused:
  "tripEffectiveSpent (s\<lparr>flightTotal := x\<rparr>) = tripEffectiveSpent s \<and>
   tripTotalIncoming (s\<lparr>flightTotal := x\<rparr>) = tripTotalIncoming s \<and>
   tripRemainingBalance (s\<lparr>flightTotal := x\<rparr>) = tripRemainingBalance s \<and>
   safeDailySpend (s\<lparr>flightTotal := x\<rparr>) = safeDailySpend s \<and>
   totalSavingsBalance (s\<lparr>flightTotal := x\<rparr>) = totalSavingsBalance s \<and>
   (finances_tbl db uid \<noteq> None \<longrightarrow>
      flightTotal (load (post_api_finances db uid p) uid) = flightTotal p)"
  by (auto simp: figure_defs dynamic_defs selection_defs load_def fetchData_def
      get_api_data_def post_api_finances_def or0_def)

text \<open>
  C10 at an input: user 2 of \<open>busy_day\<close> has a row; a flightTotal of 777 is stored and
  returned, and changes no figure of the scenario.
\<close>

theorem C10_witness:
  "finances_tbl (run initial_db busy_day) 2 \<noteq> None \<and>
   flightTotal (load (post_api_finances (run initial_db busy_day) 2
      (FixedParameters.truncate (scenario\<lparr>flightTotal := 777\<rparr>))) 2) = 777 \<and>
   tripRemainingBalance (scenario\<lparr>flightTotal := 777\<rparr>) = tripRemainingBalance scenario \<and>
   totalSavingsBalance (scenario\<lparr>flightTotal := 777\<rparr>) = totalSavingsBalance scenario"
proof -
  have row: "finances_tbl (run initial_db busy_day) 2 \<noteq> None"
    by (simp add: run_busy_day)
  have "flightTotal (FixedParameters.truncate (scenario\<lparr>flightTotal := 777\<rparr>)) = 777"
    by (simp add: FixedParameters.truncate_def)
  with row C10_flightTotal_unused [where s = scenario and x = 777
      and db = "run initial_db busy_day" and uid = 2
      and p = "FixedParameters.truncate (scenario\<lparr>flightTotal := 777\<rparr>)"]
  show ?thesis
    by simp
qed

end
